theory Spec2Isabelle
  imports Complex_Main
begin

section \<open>The bank-details hook and the payment summary of carehomeconnect\<close>

text \<open>
  The development embeds \<^verbatim>\<open>src/hooks/useBankDetails.tsx\<close> (the hook
  \<^verbatim>\<open>useBankDetails\<close>) and the component \<^verbatim>\<open>PaymentSummary\<close>.

  The hook keeps three pieces of React state and talks to a remote table through the
  supabase client. A \<open>world\<close> holds the prop \<open>userId\<close>, the three state cells, the
  notifications shown so far and the remote service. The hook is modelled twice.
  \<^item> One invocation on its own: \<open>fetchBankDetails\<close>, \<open>saveBankDetails\<close> and
    \<open>deleteBankDetails\<close> are functions on a world in which every request of the invocation
    is served and its answer delivered before anything else happens.
  \<^item> The hook among other events: every \<^verbatim>\<open>await\<close> of the source is a point where the
    function is suspended as a \<open>task\<close>, the remote service serves a request at some later
    moment, the answer arrives at some moment after that, and calls, renders and answers
    of other tasks may come in between.
  The calls to \<^verbatim>\<open>console.log\<close> and \<^verbatim>\<open>console.error\<close> are left out.
\<close>

subsection \<open>Data\<close>

text \<open>The form values of the source, \<^verbatim>\<open>interface BankFormValues\<close>.\<close>

record BankFormValues =
  accountName :: string
  accountNumber :: string
  routingNumber :: string
  bankName :: string

text \<open>
  The object \<^verbatim>\<open>bankPayload\<close> that \<^verbatim>\<open>saveBankDetails\<close> builds. The column
  \<open>use_for_both\<close> is optional in a row (the source reads it as
  \<^verbatim>\<open>data.use_for_both || false\<close>); the payload always carries \<open>Some\<close> flag.
\<close>

record bankPayload =
  account_name :: string
  account_number :: string
  routing_number :: string
  bank_name :: string
  use_for_both :: "bool option"

text \<open>
  Modelled from the spec: the type \<^verbatim>\<open>BankDetails\<close> of \<^verbatim>\<open>@/types/bank\<close>, which is
  not among the sources. A row is the payload's columns, the identifier the remote store
  assigned (\<^verbatim>\<open>id\<close> in the source) and the owning user.
\<close>

record BankDetails = bankPayload +
  id' :: string
  user_id :: string

text \<open>The argument of \<^verbatim>\<open>toast\<close>; \<open>variant\<close> and \<open>icon\<close> are optional.\<close>

record toast_args =
  title :: string
  description :: string
  variant :: "string option"
  icon :: "string option"

subsection \<open>The remote service\<close>

text \<open>
  The supabase client resolves a request to an object \<^verbatim>\<open>{ data, error }\<close>, or the awaited
  promise rejects. Of an error the hook reads only \<^verbatim>\<open>code\<close>, which may be missing.
\<close>

datatype PostgrestError = PostgrestError (code: "string option")

datatype 'a response = Resolved (data: "'a option") (error: "PostgrestError option") | Rejected

text \<open>The requests the hook issues, with the filters of their \<^verbatim>\<open>.eq\<close> calls.\<close>

datatype request =
    Select string                       \<comment> \<open>\<^verbatim>\<open>.select().eq("user_id", u).maybeSingle()\<close>\<close>
  | SelectId string                     \<comment> \<open>\<^verbatim>\<open>.select("id").eq("user_id", u).maybeSingle()\<close>\<close>
  | Update bankPayload string string    \<comment> \<open>\<^verbatim>\<open>.update(p).eq("id", i).eq("user_id", u)\<close>\<close>
  | Insert string bankPayload           \<comment> \<open>\<^verbatim>\<open>.insert({ user_id: u, ...p })\<close>\<close>
  | Delete string string                \<comment> \<open>\<^verbatim>\<open>.delete().eq("id", i).eq("user_id", u)\<close>\<close>

text \<open>
  What the environment does to one request: it is served from the table, or it comes back
  with an error of some code and the table untouched, or the promise rejects.
\<close>

datatype fault = NoFault | ErrorCode "string option" | Reject

text \<open>
  Modelled from the spec: the remote row-store behind the supabase client, which is an
  external collaborator. It holds the rows of the table \<^verbatim>\<open>bank_details\<close>, a counter
  from which it names new rows, the faults of the requests to come (none once the list is
  used up) and the requests it has received, oldest first.
\<close>

record remote =
  rows :: "BankDetails list"
  next_id :: nat
  faults :: "fault list"
  requests :: "request list"

text \<open>The fault of the \<open>n\<close>-th request to come, counted from 0.\<close>

definition fault_at :: "nat \<Rightarrow> remote \<Rightarrow> fault" where
  "fault_at n r = (case drop n (faults r) of [] \<Rightarrow> NoFault | f # fs \<Rightarrow> f)"

definition receive :: "request \<Rightarrow> remote \<Rightarrow> fault \<times> remote" where
  "receive q r = (fault_at 0 r, r\<lparr>faults := drop 1 (faults r), requests := requests r @ [q]\<rparr>)"

text \<open>An identifier for a new row: never empty, and different for different counters.\<close>

definition new_id :: "nat \<Rightarrow> string" where
  "new_id n = replicate (Suc n) (CHR ''#'')"

definition new_row :: "string \<Rightarrow> string \<Rightarrow> bankPayload \<Rightarrow> BankDetails" where
  "new_row i u p =
     \<lparr>account_name = account_name p, account_number = account_number p,
      routing_number = routing_number p, bank_name = bank_name p,
      use_for_both = use_for_both p, id' = i, user_id = u\<rparr>"

definition set_columns :: "bankPayload \<Rightarrow> BankDetails \<Rightarrow> BankDetails" where
  "set_columns p d =
     d\<lparr>account_name := account_name p, account_number := account_number p,
       routing_number := routing_number p, bank_name := bank_name p,
       use_for_both := use_for_both p\<rparr>"

text \<open>
  SELECT one row by \<open>userId\<close>: the row of that user, or no data when there is none. Where
  the table holds several rows of one user the spec does not say what comes back; the
  model answers with the first, and no theorem below depends on that choice beyond the
  row being one of that user's.
\<close>

definition select_maybeSingle :: "string \<Rightarrow> remote \<Rightarrow> BankDetails response \<times> remote" where
  "select_maybeSingle u r =
     (case receive (Select u) r of
        (NoFault, r') \<Rightarrow> (Resolved (find (\<lambda>d. user_id d = u) (rows r')) None, r')
      | (ErrorCode c, r') \<Rightarrow> (Resolved None (Some (PostgrestError c)), r')
      | (Reject, r') \<Rightarrow> (Rejected, r'))"

definition select_id_maybeSingle :: "string \<Rightarrow> remote \<Rightarrow> string response \<times> remote" where
  "select_id_maybeSingle u r =
     (case receive (SelectId u) r of
        (NoFault, r') \<Rightarrow>
          (Resolved (map_option id' (find (\<lambda>d. user_id d = u) (rows r'))) None, r')
      | (ErrorCode c, r') \<Rightarrow> (Resolved None (Some (PostgrestError c)), r')
      | (Reject, r') \<Rightarrow> (Rejected, r'))"

definition update_eq :: "bankPayload \<Rightarrow> string \<Rightarrow> string \<Rightarrow> remote \<Rightarrow> unit response \<times> remote" where
  "update_eq p i u r =
     (case receive (Update p i u) r of
        (NoFault, r') \<Rightarrow>
          (Resolved None None,
           r'\<lparr>rows := map (\<lambda>d. if id' d = i \<and> user_id d = u then set_columns p d else d) (rows r')\<rparr>)
      | (ErrorCode c, r') \<Rightarrow> (Resolved None (Some (PostgrestError c)), r')
      | (Reject, r') \<Rightarrow> (Rejected, r'))"

definition insert_row :: "string \<Rightarrow> bankPayload \<Rightarrow> remote \<Rightarrow> unit response \<times> remote" where
  "insert_row u p r =
     (case receive (Insert u p) r of
        (NoFault, r') \<Rightarrow>
          (Resolved None None,
           r'\<lparr>rows := rows r' @ [new_row (new_id (next_id r')) u p], next_id := Suc (next_id r')\<rparr>)
      | (ErrorCode c, r') \<Rightarrow> (Resolved None (Some (PostgrestError c)), r')
      | (Reject, r') \<Rightarrow> (Rejected, r'))"

definition delete_eq :: "string \<Rightarrow> string \<Rightarrow> remote \<Rightarrow> unit response \<times> remote" where
  "delete_eq i u r =
     (case receive (Delete i u) r of
        (NoFault, r') \<Rightarrow>
          (Resolved None None,
           r'\<lparr>rows := filter (\<lambda>d. \<not> (id' d = i \<and> user_id d = u)) (rows r')\<rparr>)
      | (ErrorCode c, r') \<Rightarrow> (Resolved None (Some (PostgrestError c)), r')
      | (Reject, r') \<Rightarrow> (Rejected, r'))"

subsection \<open>The hook\<close>

text \<open>
  The prop \<open>userId\<close>, the state cells of the three \<^verbatim>\<open>useState\<close> calls, the notifications
  passed to \<^verbatim>\<open>toast\<close> (oldest first) and the remote service.
\<close>

record world =
  userId :: string
  bankDetails :: "BankDetails option"
  isProcessing :: bool
  useForBoth :: bool
  toasts :: "toast_args list"
  remote :: remote

definition toast :: "toast_args \<Rightarrow> world \<Rightarrow> world" where
  "toast t w = w\<lparr>toasts := toasts w @ [t]\<rparr>"

definition fetch_error_toast :: toast_args where
  "fetch_error_toast =
     \<lparr>title = ''Error loading data'',
      description = ''Could not load your bank information. Please try again later.'',
      variant = Some ''destructive'', icon = None\<rparr>"

definition saved_toast :: toast_args where
  "saved_toast =
     \<lparr>title = ''Banking details updated'',
      description = ''Your banking information has been saved securely'',
      variant = None, icon = Some ''shield-check''\<rparr>"

definition save_error_toast :: toast_args where
  "save_error_toast =
     \<lparr>title = ''Error'',
      description = ''Failed to update banking information. Please try again.'',
      variant = Some ''destructive'', icon = None\<rparr>"

definition removed_toast :: toast_args where
  "removed_toast =
     \<lparr>title = ''Banking details removed'',
      description = ''Your banking information has been removed successfully'',
      variant = None, icon = Some ''check''\<rparr>"

definition delete_error_toast :: toast_args where
  "delete_error_toast =
     \<lparr>title = ''Error'',
      description = ''Failed to remove banking information. Please try again.'',
      variant = Some ''destructive'', icon = None\<rparr>"

text \<open>\<^verbatim>\<open>error && error.code !== 'PGRST116'\<close>\<close>

definition not_no_rows :: "PostgrestError option \<Rightarrow> bool" where
  "not_no_rows e = (case e of None \<Rightarrow> False | Some x \<Rightarrow> code x \<noteq> Some ''PGRST116'')"

text \<open>
  \<^verbatim>\<open>fetchBankDetails\<close>, after its request has been answered: the body of the
  \<^verbatim>\<open>try\<close> from the test of \<^verbatim>\<open>error\<close> on, and the \<^verbatim>\<open>catch\<close> for a rejected promise.
\<close>

definition fetch_resolved :: "BankDetails response \<Rightarrow> world \<Rightarrow> world" where
  "fetch_resolved resp w =
     (case resp of
        Rejected \<Rightarrow> toast fetch_error_toast w
      | Resolved dat err \<Rightarrow>
          if not_no_rows err then toast fetch_error_toast w
          else (case dat of
                  Some d \<Rightarrow>
                    w\<lparr>bankDetails := Some d,
                      useForBoth := (case use_for_both d of Some b \<Rightarrow> b | None \<Rightarrow> False)\<rparr>
                | None \<Rightarrow> w\<lparr>bankDetails := None, useForBoth := False\<rparr>))"

definition fetchBankDetails :: "world \<Rightarrow> world" where
  "fetchBankDetails w =
     (if userId w = [] then w
      else (case select_maybeSingle (userId w) (remote w) of
              (resp, r) \<Rightarrow> fetch_resolved resp (w\<lparr>remote := r\<rparr>)))"

text \<open>
  What a \<^verbatim>\<open>try\<close> block leaves behind when it does not return: the value thrown is only
  logged by the \<^verbatim>\<open>catch\<close> blocks, so the model keeps no more than the fact.
\<close>

datatype thrown = Thrown

text \<open>The object \<^verbatim>\<open>bankPayload\<close> of \<^verbatim>\<open>saveBankDetails\<close>, from the form and the flag.\<close>

definition bankPayload_of :: "BankFormValues \<Rightarrow> bool \<Rightarrow> bankPayload" where
  "bankPayload_of formData flag =
     \<lparr>account_name = accountName formData,
      account_number = accountNumber formData,
      routing_number = routingNumber formData,
      bank_name = bankName formData,
      use_for_both = Some flag\<rparr>"

text \<open>
  The \<^verbatim>\<open>try\<close> block of \<^verbatim>\<open>saveBankDetails\<close>. The data of the lookup is the \<open>id\<close>
  column alone; \<^verbatim>\<open>existingData?.id\<close> holds for an identifier that is not the empty
  string. The refresh \<^verbatim>\<open>fetchBankDetails()\<close> is not awaited in the source; here it is
  served and answered at once, before the block returns. The events below let it stay in
  flight.
\<close>

definition save_try :: "BankFormValues \<Rightarrow> world \<Rightarrow> (thrown + bool) \<times> world" where
  "save_try formData w =
     (case select_id_maybeSingle (userId w) (remote w) of
        (Rejected, r1) \<Rightarrow> (Inl Thrown, w\<lparr>remote := r1\<rparr>)
      | (Resolved existingData checkError, r1) \<Rightarrow>
          if not_no_rows checkError then (Inl Thrown, w\<lparr>remote := r1\<rparr>)
          else
            let bankPayload = bankPayload_of formData (useForBoth w)
            in (case (case existingData of
                        Some i \<Rightarrow>
                          if i \<noteq> [] then update_eq bankPayload i (userId w) r1
                          else insert_row (userId w) bankPayload r1
                      | None \<Rightarrow> insert_row (userId w) bankPayload r1) of
                  (Rejected, r2) \<Rightarrow> (Inl Thrown, w\<lparr>remote := r2\<rparr>)
                | (Resolved _ updateError, r2) \<Rightarrow>
                    (case updateError of
                       Some e \<Rightarrow> (Inl Thrown, w\<lparr>remote := r2\<rparr>)
                     | None \<Rightarrow>
                         (Inr True, fetchBankDetails (toast saved_toast (w\<lparr>remote := r2\<rparr>))))))"

text \<open>\<^verbatim>\<open>saveBankDetails\<close>: the guard, the \<^verbatim>\<open>try\<close>, its \<^verbatim>\<open>catch\<close> and its \<^verbatim>\<open>finally\<close>.\<close>

definition saveBankDetails :: "BankFormValues \<Rightarrow> world \<Rightarrow> bool \<times> world" where
  "saveBankDetails formData w =
     (if userId w = [] then (False, w)
      else (case save_try formData (w\<lparr>isProcessing := True\<rparr>) of
              (Inr b, w1) \<Rightarrow> (b, w1\<lparr>isProcessing := False\<rparr>)
            | (Inl _, w1) \<Rightarrow> (False, (toast save_error_toast w1)\<lparr>isProcessing := False\<rparr>)))"

text \<open>The \<^verbatim>\<open>try\<close> block of \<^verbatim>\<open>deleteBankDetails\<close>, for the identifier \<^verbatim>\<open>bankDetails.id\<close>.\<close>

definition delete_try :: "string \<Rightarrow> world \<Rightarrow> (thrown + bool) \<times> world" where
  "delete_try i w =
     (case delete_eq i (userId w) (remote w) of
        (Rejected, r) \<Rightarrow> (Inl Thrown, w\<lparr>remote := r\<rparr>)
      | (Resolved _ err, r) \<Rightarrow>
          (case err of
             Some e \<Rightarrow> (Inl Thrown, w\<lparr>remote := r\<rparr>)
           | None \<Rightarrow>
               (Inr True,
                (toast removed_toast (w\<lparr>remote := r\<rparr>))\<lparr>bankDetails := None, useForBoth := False\<rparr>)))"

text \<open>
  \<^verbatim>\<open>bankDetails?.id\<close> where it counts as true: a record is held and its identifier is not
  the empty string.
\<close>

definition known_id :: "world \<Rightarrow> string option" where
  "known_id w =
     (case bankDetails w of None \<Rightarrow> None | Some d \<Rightarrow> if id' d = [] then None else Some (id' d))"

definition deleteBankDetails :: "world \<Rightarrow> bool \<times> world" where
  "deleteBankDetails w =
     (if userId w = [] then (False, w)
      else (case known_id w of
              None \<Rightarrow> (False, w)
            | Some i \<Rightarrow>
                (case delete_try i (w\<lparr>isProcessing := True\<rparr>) of
                   (Inr b, w1) \<Rightarrow> (b, w1\<lparr>isProcessing := False\<rparr>)
                 | (Inl _, w1) \<Rightarrow> (False, (toast delete_error_toast w1)\<lparr>isProcessing := False\<rparr>))))"

text \<open>
  The effect \<^verbatim>\<open>useEffect(..., [userId])\<close> with the fetch it starts served and answered
  at once.
\<close>

definition useEffect_userId :: "world \<Rightarrow> world" where
  "useEffect_userId w =
     (if userId w \<noteq> [] then fetchBankDetails w
      else w\<lparr>bankDetails := None, useForBoth := False\<rparr>)"

text \<open>The first render of \<^verbatim>\<open>useBankDetails(userId)\<close>: the initial state, then the effect.\<close>

definition initial :: "string \<Rightarrow> remote \<Rightarrow> world" where
  "initial u r =
     \<lparr>userId = u, bankDetails = None, isProcessing = False, useForBoth = False,
      toasts = [], remote = r\<rparr>"

definition useBankDetails :: "string \<Rightarrow> remote \<Rightarrow> world" where
  "useBankDetails u r = useEffect_userId (initial u r)"

text \<open>
  A later render with the prop \<open>u\<close>: the state is kept, and the effect runs when its
  dependency \<open>userId\<close> has changed.
\<close>

definition rerender :: "string \<Rightarrow> world \<Rightarrow> world" where
  "rerender u w = (if u = userId w then w else useEffect_userId (w\<lparr>userId := u\<rparr>))"

definition setUseForBoth :: "bool \<Rightarrow> world \<Rightarrow> world" where
  "setUseForBoth b w = w\<lparr>useForBoth := b\<rparr>"

subsection \<open>The hook among other events\<close>

text \<open>
  A function of the hook suspended at an \<^verbatim>\<open>await\<close>, with the variables of its closure
  that the rest of the function reads. A request is first in flight, then served by the
  remote service, and its answer is delivered later still.
\<close>

datatype task =
    Fetching string
      \<comment> \<open>\<^verbatim>\<open>fetchBankDetails\<close> of a render with this \<open>userId\<close>: select sent\<close>
  | Fetched string "BankDetails response"
      \<comment> \<open>the select served, the answer on its way\<close>
  | Looking BankFormValues string bool
      \<comment> \<open>\<^verbatim>\<open>saveBankDetails\<close> with its \<open>formData\<close>, \<open>userId\<close>, \<open>useForBoth\<close>: lookup sent\<close>
  | Looked BankFormValues string bool "string response"
  | Updating string bankPayload string
      \<comment> \<open>\<^verbatim>\<open>saveBankDetails\<close> of this \<open>userId\<close>: update of the row with this id sent\<close>
  | Inserting string bankPayload
      \<comment> \<open>\<^verbatim>\<open>saveBankDetails\<close> of this \<open>userId\<close>: insert sent\<close>
  | Written string "unit response"
  | Deleting string string
      \<comment> \<open>\<^verbatim>\<open>deleteBankDetails\<close>: delete of this id for this \<open>userId\<close> sent\<close>
  | Deleted string "unit response"

text \<open>The hook as it is rendered now, and the tasks in flight, oldest first.\<close>

record running =
  hook :: world
  pending :: "task list"

definition remove_nth :: "nat \<Rightarrow> 'a list \<Rightarrow> 'a list" where
  "remove_nth k xs = take k xs @ drop (Suc k) xs"

text \<open>
  A call of \<^verbatim>\<open>fetchBankDetails\<close> from the current render, up to its \<^verbatim>\<open>await\<close>.
\<close>

definition call_fetch :: "running \<Rightarrow> running" where
  "call_fetch a =
     (if userId (hook a) = [] then a
      else a\<lparr>pending := pending a @ [Fetching (userId (hook a))]\<rparr>)"

text \<open>
  A call of \<^verbatim>\<open>saveBankDetails(formData)\<close> from the current render, up to its first
  \<^verbatim>\<open>await\<close>: the guard, \<^verbatim>\<open>setIsProcessing(true)\<close>, the lookup sent.
\<close>

definition call_save :: "BankFormValues \<Rightarrow> running \<Rightarrow> running" where
  "call_save formData a =
     (if userId (hook a) = [] then a
      else a\<lparr>hook := (hook a)\<lparr>isProcessing := True\<rparr>,
             pending := pending a @ [Looking formData (userId (hook a)) (useForBoth (hook a))]\<rparr>)"

text \<open>A call of \<^verbatim>\<open>deleteBankDetails\<close> from the current render, up to its \<^verbatim>\<open>await\<close>.\<close>

definition call_delete :: "running \<Rightarrow> running" where
  "call_delete a =
     (if userId (hook a) = [] then a
      else (case known_id (hook a) of
              None \<Rightarrow> a
            | Some i \<Rightarrow>
                a\<lparr>hook := (hook a)\<lparr>isProcessing := True\<rparr>,
                  pending := pending a @ [Deleting i (userId (hook a))]\<rparr>))"

text \<open>
  A render with the prop \<open>u\<close>. When \<open>userId\<close> has changed the effect runs: it calls
  \<^verbatim>\<open>fetchBankDetails\<close> of the new render, or resets the state for an empty \<open>userId\<close>.
\<close>

definition render :: "string \<Rightarrow> running \<Rightarrow> running" where
  "render u a =
     (if u = userId (hook a) then a
      else if u \<noteq> [] then call_fetch (a\<lparr>hook := (hook a)\<lparr>userId := u\<rparr>\<rparr>)
      else a\<lparr>hook := (hook a)\<lparr>userId := u, bankDetails := None, useForBoth := False\<rparr>\<rparr>)"

text \<open>The first render: the initial state and the effect.\<close>

definition mount :: "string \<Rightarrow> remote \<Rightarrow> running" where
  "mount u r =
     (if u \<noteq> [] then call_fetch \<lparr>hook = initial u r, pending = []\<rparr>
      else \<lparr>hook = (initial u r)\<lparr>bankDetails := None, useForBoth := False\<rparr>, pending = []\<rparr>)"

text \<open>The remote service serves the request of the \<open>k\<close>-th task in flight.\<close>

definition serve :: "nat \<Rightarrow> running \<Rightarrow> running" where
  "serve k a =
     (if k < length (pending a)
      then (case pending a ! k of
              Fetching u \<Rightarrow>
                (case select_maybeSingle u (remote (hook a)) of
                   (resp, r) \<Rightarrow>
                     a\<lparr>hook := (hook a)\<lparr>remote := r\<rparr>,
                       pending := (pending a)[k := Fetched u resp]\<rparr>)
            | Looking formData u flag \<Rightarrow>
                (case select_id_maybeSingle u (remote (hook a)) of
                   (resp, r) \<Rightarrow>
                     a\<lparr>hook := (hook a)\<lparr>remote := r\<rparr>,
                       pending := (pending a)[k := Looked formData u flag resp]\<rparr>)
            | Updating u p i \<Rightarrow>
                (case update_eq p i u (remote (hook a)) of
                   (resp, r) \<Rightarrow>
                     a\<lparr>hook := (hook a)\<lparr>remote := r\<rparr>,
                       pending := (pending a)[k := Written u resp]\<rparr>)
            | Inserting u p \<Rightarrow>
                (case insert_row u p (remote (hook a)) of
                   (resp, r) \<Rightarrow>
                     a\<lparr>hook := (hook a)\<lparr>remote := r\<rparr>,
                       pending := (pending a)[k := Written u resp]\<rparr>)
            | Deleting i u \<Rightarrow>
                (case delete_eq i u (remote (hook a)) of
                   (resp, r) \<Rightarrow>
                     a\<lparr>hook := (hook a)\<lparr>remote := r\<rparr>,
                       pending := (pending a)[k := Deleted u resp]\<rparr>)
            | _ \<Rightarrow> a)
      else a)"

text \<open>
  \<^verbatim>\<open>saveBankDetails\<close> and \<^verbatim>\<open>deleteBankDetails\<close> leaving through \<^verbatim>\<open>catch\<close> and
  \<^verbatim>\<open>finally\<close>: the error notification, \<^verbatim>\<open>setIsProcessing(false)\<close>, the task gone.
\<close>

definition caught :: "toast_args \<Rightarrow> nat \<Rightarrow> running \<Rightarrow> running" where
  "caught t k a =
     a\<lparr>hook := (toast t (hook a))\<lparr>isProcessing := False\<rparr>,
       pending := remove_nth k (pending a)\<rparr>"

text \<open>
  The answer of the \<open>k\<close>-th task arrives and its function runs on, to its next
  \<^verbatim>\<open>await\<close> or to its end. The state setters act on the state as it is now; the
  variables \<open>userId\<close> and \<open>useForBoth\<close> are those of the render that made the call. A save
  that succeeds calls \<^verbatim>\<open>fetchBankDetails()\<close> of its own render and does not wait for it.
\<close>

definition arrive :: "nat \<Rightarrow> running \<Rightarrow> running" where
  "arrive k a =
     (if k < length (pending a)
      then (case pending a ! k of
              Fetched u resp \<Rightarrow>
                a\<lparr>hook := fetch_resolved resp (hook a), pending := remove_nth k (pending a)\<rparr>
            | Looked formData u flag resp \<Rightarrow>
                (case resp of
                   Rejected \<Rightarrow> caught save_error_toast k a
                 | Resolved existingData checkError \<Rightarrow>
                     if not_no_rows checkError then caught save_error_toast k a
                     else
                       let bankPayload = bankPayload_of formData flag
                       in a\<lparr>pending := (pending a)
                              [k := (case existingData of
                                       Some i \<Rightarrow>
                                         if i \<noteq> [] then Updating u bankPayload i
                                         else Inserting u bankPayload
                                     | None \<Rightarrow> Inserting u bankPayload)]\<rparr>)
            | Written u resp \<Rightarrow>
                (case resp of
                   Rejected \<Rightarrow> caught save_error_toast k a
                 | Resolved _ updateError \<Rightarrow>
                     (case updateError of
                        Some e \<Rightarrow> caught save_error_toast k a
                      | None \<Rightarrow>
                          a\<lparr>hook := (toast saved_toast (hook a))\<lparr>isProcessing := False\<rparr>,
                            pending := remove_nth k (pending a) @
                              (if u = [] then [] else [Fetching u])\<rparr>))
            | Deleted u resp \<Rightarrow>
                (case resp of
                   Rejected \<Rightarrow> caught delete_error_toast k a
                 | Resolved _ err \<Rightarrow>
                     (case err of
                        Some e \<Rightarrow> caught delete_error_toast k a
                      | None \<Rightarrow>
                          a\<lparr>hook := (toast removed_toast (hook a))
                                 \<lparr>bankDetails := None, useForBoth := False,
                                  isProcessing := False\<rparr>,
                            pending := remove_nth k (pending a)\<rparr>))
            | _ \<Rightarrow> a)
      else a)"

text \<open>What can happen to the hook, and a run of such events.\<close>

datatype event =
    CallFetch | CallSave BankFormValues | CallDelete | SetUseForBoth bool | Render string
  | Serve nat | Arrive nat

fun exec :: "event \<Rightarrow> running \<Rightarrow> running" where
  "exec CallFetch a = call_fetch a"
| "exec (CallSave formData) a = call_save formData a"
| "exec CallDelete a = call_delete a"
| "exec (SetUseForBoth b) a = a\<lparr>hook := setUseForBoth b (hook a)\<rparr>"
| "exec (Render u) a = render u a"
| "exec (Serve k) a = serve k a"
| "exec (Arrive k) a = arrive k a"

fun execs :: "event list \<Rightarrow> running \<Rightarrow> running" where
  "execs [] a = a"
| "execs (e # es) a = execs es (exec e a)"

subsection \<open>The payment summary\<close>

text \<open>
  A number of the language: not-a-number, the two infinities, or a finite value. Every
  finite double is a rational number, so a statement about all rationals covers all finite
  doubles (the rationals have one zero; \<^verbatim>\<open>toFixed\<close> prints both zeros of the doubles
  alike).
\<close>

datatype number = NaN | Infinity | NegInfinity | Finite rat

text \<open>The decimal digits of a natural number, \<open>''0''\<close> for zero.\<close>

definition digit :: "nat \<Rightarrow> char" where
  "digit d = ''0123456789'' ! (d mod 10)"

function dec :: "nat \<Rightarrow> string" where
  "dec n = (if n < 10 then [digit n] else dec (n div 10) @ [digit (n mod 10)])"
  by pat_completeness auto
termination
  by (relation "measure id") auto

declare dec.simps [simp del]

text \<open>
  \<^verbatim>\<open>Number.prototype.toFixed(fractionDigits)\<close> as the language standard defines it, for
  \<open>fractionDigits\<close> from 0 to 100. It belongs to the language, not to the repository.
  A value that is not finite is printed by name. Otherwise the sign is split off; a
  magnitude of \<open>10\<^sup>2\<^sup>1\<close> or more is printed by the number-to-string conversion of the
  language, which is a parameter here; a smaller one is printed as the integer \<open>n\<close>
  nearest to \<open>x \<times> 10\<^sup>f\<close> (the larger of two), padded with zeros to more than \<open>f\<close> digits,
  with a point before the last \<open>f\<close> digits.
\<close>

definition toFixed :: "(rat \<Rightarrow> string) \<Rightarrow> number \<Rightarrow> nat \<Rightarrow> string" where
  "toFixed toString x f =
     (case x of
        NaN \<Rightarrow> ''NaN''
      | Infinity \<Rightarrow> ''Infinity''
      | NegInfinity \<Rightarrow> ''-Infinity''
      | Finite q \<Rightarrow>
          let s = (if q < 0 then ''-'' else []);
              y = \<bar>q\<bar>
          in if 10 ^ 21 \<le> y then s @ toString y
             else
               let n = nat \<lfloor>y * 10 ^ f + 1 / 2\<rfloor>;
                   m = dec n
               in if f = 0 then s @ m
                  else
                    let m' = (if length m \<le> f
                              then replicate (f + 1 - length m) (CHR ''0'') @ m else m);
                        k = length m'
                    in s @ take (k - f) m' @ ''.'' @ drop (k - f) m')"

text \<open>
  A rendered element: a component or tag with its \<^verbatim>\<open>className\<close> and children, or a
  text.
\<close>

datatype element = Node string "string option" "element list" | Text string

definition PaymentSummary :: "(rat \<Rightarrow> string) \<Rightarrow> number \<Rightarrow> element" where
  "PaymentSummary toString monthlyRate =
     Node ''Card'' None
       [Node ''CardHeader'' None
          [Node ''CardTitle'' None [Text ''Payment Summary'']],
        Node ''CardContent'' None
          [Node ''div'' (Some ''space-y-4'')
             [Node ''div'' (Some ''flex justify-between'')
                [Node ''span'' (Some ''text-gray-600'') [Text ''Rent per month:''],
                 Node ''div'' (Some ''flex items-center gap-1'')
                   [Node ''DollarSign'' (Some ''h-4 w-4'') [],
                    Node ''span'' (Some ''font-medium'') [Text (toFixed toString monthlyRate 2)]]],
              Node ''Separator'' None [],
              Node ''div'' (Some ''flex justify-between'')
                [Node ''span'' (Some ''font-medium'') [Text ''Total Rent Amount:''],
                 Node ''div'' (Some ''flex items-center gap-1'')
                   [Node ''DollarSign'' (Some ''h-4 w-4'') [],
                    Node ''span'' (Some ''font-bold text-xl'')
                      [Text (toFixed toString monthlyRate 2)]]]]]]"

text \<open>All texts of an element, in document order.\<close>

fun texts :: "element \<Rightarrow> string list" where
  "texts (Text s) = [s]"
| "texts (Node tag cls children) = concat (map texts children)"

text \<open>
  The amounts shown beside a currency glyph: the texts of a \<^verbatim>\<open>span\<close> that directly
  follows a \<^verbatim>\<open>DollarSign\<close> icon under the same parent.
\<close>

fun amounts :: "element \<Rightarrow> string list" where
  "amounts (Text s) = []"
| "amounts (Node tag cls children) =
     (case children of
        [Node t1 c1 [], Node t2 c2 [Text s]] \<Rightarrow>
          if t1 = ''DollarSign'' \<and> t2 = ''span'' then [s] else concat (map amounts children)
      | _ \<Rightarrow> concat (map amounts children))"

subsection \<open>Notions used in the statements\<close>

text \<open>
  A fault under which the hook takes a lookup for failed: the promise rejects (the
  \<^verbatim>\<open>catch\<close>), or the answer carries an error whose code is not \<^verbatim>\<open>PGRST116\<close>.
\<close>

definition lookup_fails :: "fault \<Rightarrow> bool" where
  "lookup_fails f =
     (case f of NoFault \<Rightarrow> False | ErrorCode c \<Rightarrow> c \<noteq> Some ''PGRST116'' | Reject \<Rightarrow> True)"

text \<open>The record held locally, if any, is a row of the user the hook is rendered for.\<close>

definition owned :: "world \<Rightarrow> bool" where
  "owned w = (case bankDetails w of None \<Rightarrow> True | Some d \<Rightarrow> user_id d = userId w)"



text \<open>A task of a save or of a delete, and whether one is in flight.\<close>

fun mutating :: "task \<Rightarrow> bool" where
  "mutating (Fetching u) = False"
| "mutating (Fetched u resp) = False"
| "mutating t = True"

definition busy :: "running \<Rightarrow> bool" where
  "busy a = list_ex mutating (pending a)"

text \<open>Along a run of events, a save or delete is called only while none is in flight.\<close>

fun one_at_a_time :: "event list \<Rightarrow> running \<Rightarrow> bool" where
  "one_at_a_time [] a = True"
| "one_at_a_time (e # es) a =
     ((case e of
         CallSave formData \<Rightarrow> \<not> busy a
       | CallDelete \<Rightarrow> \<not> busy a
       | _ \<Rightarrow> True)
      \<and> one_at_a_time es (exec e a))"

text \<open>
  For the proofs: a task was started by a render for the user \<open>v\<close>; an answer on its way
  to a fetch carries no row of another user; and the two invariants of the runs: every
  task is of the current user with such an answer and a stale record has a fetch in
  flight, and at most one save or delete is in flight, with the flag set.
\<close>

fun started_for :: "string \<Rightarrow> task \<Rightarrow> bool" where
  "started_for v (Fetching u) = (u = v)"
| "started_for v (Fetched u resp) = (u = v)"
| "started_for v (Looking formData u flag) = (u = v)"
| "started_for v (Looked formData u flag resp) = (u = v)"
| "started_for v (Updating u p i) = (u = v)"
| "started_for v (Inserting u p) = (u = v)"
| "started_for v (Written u resp) = (u = v)"
| "started_for v (Deleting i u) = (u = v)"
| "started_for v (Deleted u resp) = (u = v)"

fun answer_ok :: "task \<Rightarrow> bool" where
  "answer_ok (Fetched u (Resolved (Some d) err)) = (user_id d = u)"
| "answer_ok t = True"

text \<open>A notification of the error style.\<close>

definition is_error :: "toast_args \<Rightarrow> bool" where
  "is_error t = (variant t = Some ''destructive'')"

text \<open>The values of the round trip in the spec, and a table with one row of a user A.\<close>

definition jane :: BankFormValues where
  "jane =
     \<lparr>accountName = ''Jane Doe'', accountNumber = ''12345'', routingNumber = ''67890'',
      bankName = ''First Bank''\<rparr>"

definition row_A :: BankDetails where
  "row_A = new_row (new_id 0) ''A'' (bankPayload_of jane True)"

definition empty_remote :: remote where
  "empty_remote = \<lparr>rows = [], next_id = 0, faults = [], requests = []\<rparr>"

definition remote_A :: "fault list \<Rightarrow> remote" where
  "remote_A fs = \<lparr>rows = [row_A], next_id = 1, faults = fs, requests = []\<rparr>"

text \<open>
  The hook after its first render for A against that table, the lookup of the first
  render served; \<open>fs\<close> are the faults of the requests after it.
\<close>

definition mounted_A :: "fault list \<Rightarrow> world" where
  "mounted_A fs = useBankDetails ''A'' (remote_A (NoFault # fs))"

text \<open>
  Two abbreviations for the proofs about \<open>saveBankDetails\<close>: the identifier that the
  lookup of a save reports, where it counts as true, and the remote service after the
  write that follows such a lookup.
\<close>

definition existing_id :: "world \<Rightarrow> string option" where
  "existing_id w =
     (if fault_at 0 (remote w) = NoFault
      then (case find (\<lambda>d. user_id d = userId w) (rows (remote w)) of
              None \<Rightarrow> None
            | Some d \<Rightarrow> if id' d \<noteq> [] then Some (id' d) else None)
      else None)"

definition save_write :: "BankFormValues \<Rightarrow> world \<Rightarrow> remote" where
  "save_write fd w =
     (case existing_id w of
        None \<Rightarrow>
          snd (insert_row (userId w) (bankPayload_of fd (useForBoth w))
                 (snd (receive (SelectId (userId w)) (remote w))))
      | Some i \<Rightarrow>
          snd (update_eq (bankPayload_of fd (useForBoth w)) i (userId w)
                 (snd (receive (SelectId (userId w)) (remote w)))))"


definition single :: "running \<Rightarrow> bool" where
  "single a =
     (length (filter mutating (pending a)) \<le> 1 \<and> isProcessing (hook a) = busy a)"

subsection \<open>The remote service, request by request\<close>

lemma fault_at_receive [simp]: "fault_at n (snd (receive q r)) = fault_at (Suc n) r"
  by (simp add: receive_def fault_at_def)

lemma fst_receive [simp]: "fst (receive q r) = fault_at 0 r"
  by (simp add: receive_def)

lemma snd_receive [simp]:
  "rows (snd (receive q r)) = rows r"
  "next_id (snd (receive q r)) = next_id r"
  "requests (snd (receive q r)) = requests r @ [q]"
  by (simp_all add: receive_def)

lemma select_maybeSingle_eq:
  "select_maybeSingle u r =
     ((case fault_at 0 r of
         NoFault \<Rightarrow> Resolved (find (\<lambda>d. user_id d = u) (rows r)) None
       | ErrorCode c \<Rightarrow> Resolved None (Some (PostgrestError c))
       | Reject \<Rightarrow> Rejected),
      snd (receive (Select u) r))"
  by (simp add: select_maybeSingle_def receive_def split: fault.splits)

lemma select_id_maybeSingle_eq:
  "select_id_maybeSingle u r =
     ((case fault_at 0 r of
         NoFault \<Rightarrow> Resolved (map_option id' (find (\<lambda>d. user_id d = u) (rows r))) None
       | ErrorCode c \<Rightarrow> Resolved None (Some (PostgrestError c))
       | Reject \<Rightarrow> Rejected),
      snd (receive (SelectId u) r))"
  by (simp add: select_id_maybeSingle_def receive_def split: fault.splits)

lemma update_eq_requests:
  "requests (snd (update_eq p i u r)) = requests r @ [Update p i u]"
  "fault_at n (snd (update_eq p i u r)) = fault_at (Suc n) r"
  by (simp_all add: update_eq_def receive_def fault_at_def split: fault.splits)

lemma insert_row_requests:
  "requests (snd (insert_row u p r)) = requests r @ [Insert u p]"
  "fault_at n (snd (insert_row u p r)) = fault_at (Suc n) r"
  by (simp_all add: insert_row_def receive_def fault_at_def split: fault.splits)


lemma write_fails_iff:
  "(case fst (update_eq p i u r) of Rejected \<Rightarrow> True | Resolved x e \<Rightarrow> e \<noteq> None) = (fault_at 0 r \<noteq> NoFault)"
  "(case fst (insert_row u p r) of Rejected \<Rightarrow> True | Resolved x e \<Rightarrow> e \<noteq> None) = (fault_at 0 r \<noteq> NoFault)"
  "(case fst (delete_eq i u r) of Rejected \<Rightarrow> True | Resolved x e \<Rightarrow> e \<noteq> None) = (fault_at 0 r \<noteq> NoFault)"
  by (simp_all add: update_eq_def insert_row_def delete_eq_def receive_def split: fault.splits)

subsection \<open>fetchBankDetails\<close>

lemma fetch_no_user: "userId w = [] \<Longrightarrow> fetchBankDetails w = w"
  by (simp add: fetchBankDetails_def)

lemma fetch_failure:
  assumes "userId w \<noteq> []" and "lookup_fails (fault_at 0 (remote w))"
  shows "fetchBankDetails w =
    w\<lparr>toasts := toasts w @ [fetch_error_toast],
      remote := snd (receive (Select (userId w)) (remote w))\<rparr>"
  using assms
  by (simp add: fetchBankDetails_def fetch_resolved_def select_maybeSingle_eq toast_def
      not_no_rows_def lookup_fails_def split: fault.splits)

lemma fetch_success:
  assumes "userId w \<noteq> []" and "\<not> lookup_fails (fault_at 0 (remote w))"
  shows "fetchBankDetails w =
    (let found = (if fault_at 0 (remote w) = NoFault
                  then find (\<lambda>d. user_id d = userId w) (rows (remote w)) else None)
     in w\<lparr>bankDetails := found,
          useForBoth := (case found of None \<Rightarrow> False
                         | Some d \<Rightarrow> (case use_for_both d of Some b \<Rightarrow> b | None \<Rightarrow> False)),
          remote := snd (receive (Select (userId w)) (remote w))\<rparr>)"
  using assms
  by (simp add: fetchBankDetails_def fetch_resolved_def select_maybeSingle_eq
      not_no_rows_def lookup_fails_def split: fault.splits option.splits)

lemma fetch_frame:
  "isProcessing (fetchBankDetails w) = isProcessing w"
  "userId (fetchBankDetails w) = userId w"
proof -
  consider "userId w = []" | "userId w \<noteq> []" "lookup_fails (fault_at 0 (remote w))"
    | "userId w \<noteq> []" "\<not> lookup_fails (fault_at 0 (remote w))"
    by blast
  then have "isProcessing (fetchBankDetails w) = isProcessing w \<and>
      userId (fetchBankDetails w) = userId w"
    by cases (simp_all add: fetch_no_user fetch_failure fetch_success Let_def)
  then show "isProcessing (fetchBankDetails w) = isProcessing w"
    and "userId (fetchBankDetails w) = userId w"
    by simp_all
qed

lemma find_user_id: "find (\<lambda>d. user_id d = u) xs = Some d \<Longrightarrow> user_id d = u"
  by (induction xs) (auto split: if_splits)

lemma fetch_success_owned:
  assumes "userId w \<noteq> []" and "\<not> lookup_fails (fault_at 0 (remote w))"
  shows "owned (fetchBankDetails w)"
  using assms
  by (auto simp add: fetch_success owned_def Let_def dest: find_user_id split: option.splits)

subsection \<open>saveBankDetails\<close>

lemma save_try_lookup_fails:
  assumes "lookup_fails (fault_at 0 (remote w))"
  shows "save_try fd w = (Inl Thrown, w\<lparr>remote := snd (receive (SelectId (userId w)) (remote w))\<rparr>)"
  using assms
  by (simp add: save_try_def select_id_maybeSingle_eq lookup_fails_def not_no_rows_def
      split: fault.splits)

text \<open>The write of a save whose lookup did not fail: an update or an insert.\<close>

lemma write_outcome:
  "(case wr of
      (Rejected, r2) \<Rightarrow> A r2
    | (Resolved x e, r2) \<Rightarrow> (case e of Some y \<Rightarrow> A r2 | None \<Rightarrow> B r2)) =
   (if (case fst wr of Rejected \<Rightarrow> True | Resolved x e \<Rightarrow> e \<noteq> None) then A (snd wr)
    else B (snd wr))"
  by (simp split: prod.splits response.splits option.splits)

lemma save_try_lookup_ok:
  assumes "\<not> lookup_fails (fault_at 0 (remote w))"
  shows "save_try fd w =
    (if fault_at 1 (remote w) \<noteq> NoFault then (Inl Thrown, w\<lparr>remote := save_write fd w\<rparr>)
     else (Inr True, fetchBankDetails (toast saved_toast (w\<lparr>remote := save_write fd w\<rparr>))))"
proof -
  let ?r1 = "snd (receive (SelectId (userId w)) (remote w))"
  let ?found = "find (\<lambda>d. user_id d = userId w) (rows (remote w))"
  have f1: "fault_at 0 ?r1 = fault_at 1 (remote w)" by simp
  from assms consider (served) "fault_at 0 (remote w) = NoFault"
    | (no_rows) "fault_at 0 (remote w) = ErrorCode (Some ''PGRST116'')"
    by (cases "fault_at 0 (remote w)") (simp_all add: lookup_fails_def)
  then show ?thesis
  proof cases
    case served
    show ?thesis
    proof (cases ?found)
      case None
      with served show ?thesis
        by (simp add: save_try_def select_id_maybeSingle_eq not_no_rows_def Let_def
            write_outcome write_fails_iff f1 save_write_def existing_id_def)
    next
      case (Some d)
      with served show ?thesis
        by (simp add: save_try_def select_id_maybeSingle_eq not_no_rows_def Let_def
            write_outcome write_fails_iff f1 save_write_def existing_id_def)
    qed
  next
    case no_rows
    then show ?thesis
      by (simp add: save_try_def select_id_maybeSingle_eq not_no_rows_def Let_def
          write_outcome write_fails_iff f1 save_write_def existing_id_def)
  qed
qed

lemma save_write_busy [simp]: "save_write fd (w\<lparr>isProcessing := b\<rparr>) = save_write fd w"
  by (simp add: save_write_def existing_id_def split: option.splits)

lemma fetch_remote:
  "userId w \<noteq> [] \<Longrightarrow> remote (fetchBankDetails w) = snd (receive (Select (userId w)) (remote w))"
  by (cases "lookup_fails (fault_at 0 (remote w))")
    (simp_all add: fetch_failure fetch_success Let_def)

lemma save_no_user: "userId w = [] \<Longrightarrow> saveBankDetails fd w = (False, w)"
  by (simp add: saveBankDetails_def)

lemma save_fails:
  assumes "userId w \<noteq> []"
    and "lookup_fails (fault_at 0 (remote w)) \<or> fault_at 1 (remote w) \<noteq> NoFault"
  shows "saveBankDetails fd w =
    (False,
     w\<lparr>isProcessing := False, toasts := toasts w @ [save_error_toast],
       remote := (if lookup_fails (fault_at 0 (remote w))
                  then snd (receive (SelectId (userId w)) (remote w)) else save_write fd w)\<rparr>)"
proof (cases "lookup_fails (fault_at 0 (remote w))")
  case True
  then have "lookup_fails (fault_at 0 (remote (w\<lparr>isProcessing := True\<rparr>)))" by simp
  from save_try_lookup_fails [OF this, of fd] assms(1) True show ?thesis
    by (simp add: saveBankDetails_def toast_def)
next
  case False
  then have ok: "\<not> lookup_fails (fault_at 0 (remote (w\<lparr>isProcessing := True\<rparr>)))" by simp
  from False assms(2) have "fault_at 1 (remote w) \<noteq> NoFault" by simp
  with save_try_lookup_ok [OF ok, of fd] assms(1) False show ?thesis
    by (simp add: saveBankDetails_def toast_def)
qed

lemma save_succeeds:
  assumes "userId w \<noteq> []"
    and "\<not> lookup_fails (fault_at 0 (remote w))" and "fault_at 1 (remote w) = NoFault"
  shows "saveBankDetails fd w =
    (True, (fetchBankDetails (toast saved_toast
              (w\<lparr>isProcessing := True, remote := save_write fd w\<rparr>)))\<lparr>isProcessing := False\<rparr>)"
proof -
  from assms(2) have ok: "\<not> lookup_fails (fault_at 0 (remote (w\<lparr>isProcessing := True\<rparr>)))"
    by simp
  from save_try_lookup_ok [OF ok, of fd] assms(1,3) show ?thesis
    by (simp add: saveBankDetails_def)
qed

subsection \<open>deleteBankDetails\<close>

lemma delete_unknown: "userId w = [] \<or> known_id w = None \<Longrightarrow> deleteBankDetails w = (False, w)"
  by (auto simp add: deleteBankDetails_def)



subsection \<open>A concrete world\<close>

lemma row_A_eq:
  "row_A =
     \<lparr>account_name = ''Jane Doe'', account_number = ''12345'', routing_number = ''67890'',
      bank_name = ''First Bank'', use_for_both = Some True, id' = ''#'', user_id = ''A''\<rparr>"
  by (simp add: row_A_def new_row_def new_id_def bankPayload_of_def jane_def)

lemma mounted_A_eq:
  "mounted_A fs =
     \<lparr>userId = ''A'', bankDetails = Some row_A, isProcessing = False, useForBoth = True,
      toasts = [],
      remote = \<lparr>rows = [row_A], next_id = 1, faults = fs, requests = [Select ''A'']\<rparr>\<rparr>"
  by (simp add: mounted_A_def useBankDetails_def useEffect_userId_def initial_def remote_A_def
      fetchBankDetails_def fetch_resolved_def select_maybeSingle_eq receive_def fault_at_def
      not_no_rows_def row_A_eq)

subsection \<open>The claims about fetch\<close>

text \<open>
  Claim C10. Every invocation of fetch leaves the busy flag \<open>isProcessing\<close> as it was, on
  every path: an empty \<open>userId\<close>, a row, no row, an error, a rejected promise; the second
  conjunct says so for every answer the client could hand to the function. Setting
  \<open>useForBoth\<close> and a re-render do not touch the flag either, so only save and delete do.
\<close>

theorem fetch_keeps_isProcessing:
  "isProcessing (fetchBankDetails w) = isProcessing w \<and>
   isProcessing (fetch_resolved resp w) = isProcessing w \<and>
   isProcessing (setUseForBoth b w) = isProcessing w \<and>
   isProcessing (rerender u w) = isProcessing w"
  by (simp add: fetch_frame fetch_resolved_def toast_def setUseForBoth_def rerender_def
      useEffect_userId_def split: response.splits option.splits)

text \<open>
  Claim C4. With a non-empty \<open>userId\<close>, a fetch whose query fails (an error whose code is
  not \<^verbatim>\<open>PGRST116\<close>, or a rejected promise) leaves \<open>bankDetails\<close> and \<open>useForBoth\<close> as
  they were and shows exactly one notification, of the error style, after the one select
  it issued. The function returns a world in every case: nothing is thrown to the caller.
\<close>

theorem fetch_failure_keeps_state:
  assumes "userId w \<noteq> []" and "lookup_fails (fault_at 0 (remote w))"
  shows "bankDetails (fetchBankDetails w) = bankDetails w \<and>
    useForBoth (fetchBankDetails w) = useForBoth w \<and>
    toasts (fetchBankDetails w) = toasts w @ [fetch_error_toast] \<and>
    is_error fetch_error_toast \<and>
    requests (remote (fetchBankDetails w)) = requests (remote w) @ [Select (userId w)]"
  using assms by (simp add: fetch_failure is_error_def fetch_error_toast_def)

theorem fetch_failure_keeps_state_witness:
  "userId (mounted_A [ErrorCode (Some ''500'')]) \<noteq> [] \<and>
   lookup_fails (fault_at 0 (remote (mounted_A [ErrorCode (Some ''500'')]))) \<and>
   bankDetails (fetchBankDetails (mounted_A [ErrorCode (Some ''500'')])) = Some row_A \<and>
   useForBoth (fetchBankDetails (mounted_A [ErrorCode (Some ''500'')])) = True \<and>
   toasts (fetchBankDetails (mounted_A [ErrorCode (Some ''500'')])) = [fetch_error_toast]"
proof -
  let ?w = "mounted_A [ErrorCode (Some ''500'')]"
  have h1: "userId ?w \<noteq> []" by (simp add: mounted_A_eq)
  have h2: "lookup_fails (fault_at 0 (remote ?w))"
    by (simp add: mounted_A_eq fault_at_def lookup_fails_def)
  from fetch_failure_keeps_state [OF h1 h2] h1 h2 show ?thesis
    by (simp add: mounted_A_eq)
qed

subsection \<open>Unmet preconditions\<close>

text \<open>
  Claim C5. With an empty \<open>userId\<close>, fetch, save and delete return the world they were given:
  no request reaches the remote service, no notification is shown and the state is
  untouched; save and delete return \<open>False\<close>. Delete does the same when no record
  identifier is known locally.
\<close>

theorem unmet_preconditions_short_circuit:
  "(userId w = [] \<longrightarrow>
      fetchBankDetails w = w \<and> saveBankDetails fd w = (False, w) \<and>
      deleteBankDetails w = (False, w)) \<and>
   (known_id w = None \<longrightarrow> deleteBankDetails w = (False, w))"
  by (simp add: fetch_no_user save_no_user delete_unknown)

theorem unmet_preconditions_short_circuit_witness:
  "userId (initial [] (remote_A [])) = [] \<and> known_id (initial ''A'' (remote_A [])) = None \<and>
   fetchBankDetails (initial [] (remote_A [])) = initial [] (remote_A []) \<and>
   saveBankDetails jane (initial [] (remote_A [])) = (False, initial [] (remote_A [])) \<and>
   deleteBankDetails (initial [] (remote_A [])) = (False, initial [] (remote_A [])) \<and>
   deleteBankDetails (initial ''A'' (remote_A [])) = (False, initial ''A'' (remote_A []))"
proof -
  have h1: "userId (initial [] (remote_A [])) = []" by (simp add: initial_def)
  have h2: "known_id (initial ''A'' (remote_A [])) = None" by (simp add: initial_def known_id_def)
  from unmet_preconditions_short_circuit [of "initial [] (remote_A [])" jane]
    unmet_preconditions_short_circuit [of "initial ''A'' (remote_A [])" jane] h1 h2
  show ?thesis by simp
qed

subsection \<open>Failures of a save\<close>

text \<open>
  Claim C3. With a non-empty \<open>userId\<close>, when a remote step of a save fails (the lookup is
  rejected or answered with an error other than \<^verbatim>\<open>PGRST116\<close>, or the update or insert is
  rejected or answered with any error), save returns \<open>False\<close>, shows exactly one
  notification, of the error style, and leaves \<open>bankDetails\<close> and \<open>useForBoth\<close> as they
  were. The function returns a value in every case: nothing is thrown to the caller.
\<close>

theorem save_failure_absorbed:
  assumes "userId w \<noteq> []"
    and "lookup_fails (fault_at 0 (remote w)) \<or> fault_at 1 (remote w) \<noteq> NoFault"
  shows "fst (saveBankDetails fd w) = False \<and>
    bankDetails (snd (saveBankDetails fd w)) = bankDetails w \<and>
    useForBoth (snd (saveBankDetails fd w)) = useForBoth w \<and>
    toasts (snd (saveBankDetails fd w)) = toasts w @ [save_error_toast] \<and>
    is_error save_error_toast"
  using save_fails [OF assms, of fd] by (simp add: is_error_def save_error_toast_def)

theorem save_failure_absorbed_witness:
  "userId (initial ''A'' (remote_A [NoFault, Reject])) \<noteq> [] \<and>
   fault_at 1 (remote (initial ''A'' (remote_A [NoFault, Reject]))) \<noteq> NoFault \<and>
   fst (saveBankDetails jane (initial ''A'' (remote_A [NoFault, Reject]))) = False \<and>
   bankDetails (snd (saveBankDetails jane (initial ''A'' (remote_A [NoFault, Reject])))) = None \<and>
   toasts (snd (saveBankDetails jane (initial ''A'' (remote_A [NoFault, Reject])))) =
     [save_error_toast]"
proof -
  let ?w = "initial ''A'' (remote_A [NoFault, Reject])"
  have h1: "userId ?w \<noteq> []" by (simp add: initial_def)
  have h2: "fault_at 1 (remote ?w) \<noteq> NoFault"
    by (simp add: initial_def remote_A_def fault_at_def)
  then have "lookup_fails (fault_at 0 (remote ?w)) \<or> fault_at 1 (remote ?w) \<noteq> NoFault" ..
  from save_failure_absorbed [OF h1 this, of jane] h1 h2 show ?thesis
    by (simp add: initial_def)
qed

subsection \<open>Deleting\<close>



subsection \<open>What a save writes\<close>

lemma insert_row_rows:
  "rows (snd (insert_row u p r)) =
     (if fault_at 0 r = NoFault then rows r @ [new_row (new_id (next_id r)) u p] else rows r)"
  by (simp add: insert_row_def receive_def split: fault.splits)

lemma update_eq_rows:
  "rows (snd (update_eq p i u r)) =
     (if fault_at 0 r = NoFault
      then map (\<lambda>d. if id' d = i \<and> user_id d = u then set_columns p d else d) (rows r)
      else rows r)"
  by (simp add: update_eq_def receive_def split: fault.splits)

lemma save_write_requests:
  "requests (save_write fd w) =
     requests (remote w) @
       [SelectId (userId w),
        (case existing_id w of
           None \<Rightarrow> Insert (userId w) (bankPayload_of fd (useForBoth w))
         | Some i \<Rightarrow> Update (bankPayload_of fd (useForBoth w)) i (userId w))]"
  by (simp add: save_write_def insert_row_requests update_eq_requests split: option.splits)

lemma save_write_fault_at: "fault_at n (save_write fd w) = fault_at (Suc (Suc n)) (remote w)"
  by (simp add: save_write_def insert_row_requests update_eq_requests split: option.splits)

lemma save_write_rows:
  "rows (save_write fd w) =
     (if fault_at 1 (remote w) = NoFault
      then (case existing_id w of
              None \<Rightarrow>
                rows (remote w) @
                  [new_row (new_id (next_id (remote w))) (userId w)
                     (bankPayload_of fd (useForBoth w))]
            | Some i \<Rightarrow>
                map (\<lambda>d. if id' d = i \<and> user_id d = userId w
                         then set_columns (bankPayload_of fd (useForBoth w)) d else d)
                  (rows (remote w)))
      else rows (remote w))"
  by (simp add: save_write_def insert_row_rows update_eq_rows split: option.splits)

lemma save_remote:
  assumes "userId w \<noteq> []"
  shows "remote (snd (saveBankDetails fd w)) =
    (if lookup_fails (fault_at 0 (remote w)) then snd (receive (SelectId (userId w)) (remote w))
     else if fault_at 1 (remote w) = NoFault
       then snd (receive (Select (userId w)) (save_write fd w))
     else save_write fd w)"
proof -
  consider "lookup_fails (fault_at 0 (remote w))"
    | "\<not> lookup_fails (fault_at 0 (remote w))" "fault_at 1 (remote w) \<noteq> NoFault"
    | "\<not> lookup_fails (fault_at 0 (remote w))" "fault_at 1 (remote w) = NoFault"
    by blast
  then show ?thesis
  proof cases
    case 1
    with assms show ?thesis by (simp add: save_fails)
  next
    case 2
    with assms show ?thesis by (simp add: save_fails)
  next
    case 3
    with assms show ?thesis by (simp add: save_succeeds fetch_remote toast_def)
  qed
qed

lemma filter_single_find: "filter P xs = [d] \<Longrightarrow> find P xs = Some d"
  by (induction xs) (auto split: if_splits)

lemma set_columns_keys: "id' (set_columns p d) = id' d" "user_id (set_columns p d) = user_id d"
  by (simp_all add: set_columns_def)

text \<open>
  Claim C2. Let \<open>userId\<close> be non-empty. When the table holds no row of the user, a save
  sends, after its lookup, an insert tagged with \<open>userId\<close> and never an update; the row
  added is the new one. When the table holds exactly one row \<open>d\<close> of the user (with an
  identifier, and the lookup not answered "no rows" all the same), a save sends, after its
  lookup, an update scoped by the identifier of \<open>d\<close> and by \<open>userId\<close>, and never an insert:
  the table holds the same rows, by identifier and owner, afterwards. In both cases a
  failed lookup ends the save after the lookup, and a successful write is followed by the
  refreshing fetch.
\<close>

theorem save_inserts_or_updates:
  assumes "userId w \<noteq> []"
  shows
    "(find (\<lambda>d. user_id d = userId w) (rows (remote w)) = None \<longrightarrow>
        requests (remote (snd (saveBankDetails fd w))) =
          requests (remote w) @ SelectId (userId w) #
            (if lookup_fails (fault_at 0 (remote w)) then []
             else Insert (userId w) (bankPayload_of fd (useForBoth w)) #
               (if fault_at 1 (remote w) = NoFault then [Select (userId w)] else [])) \<and>
        rows (remote (snd (saveBankDetails fd w))) =
          (if \<not> lookup_fails (fault_at 0 (remote w)) \<and> fault_at 1 (remote w) = NoFault
           then rows (remote w) @
                  [new_row (new_id (next_id (remote w))) (userId w)
                     (bankPayload_of fd (useForBoth w))]
           else rows (remote w))) \<and>
     (filter (\<lambda>d. user_id d = userId w) (rows (remote w)) = [d] \<and> id' d \<noteq> [] \<and>
      fault_at 0 (remote w) \<noteq> ErrorCode (Some ''PGRST116'') \<longrightarrow>
        requests (remote (snd (saveBankDetails fd w))) =
          requests (remote w) @ SelectId (userId w) #
            (if lookup_fails (fault_at 0 (remote w)) then []
             else Update (bankPayload_of fd (useForBoth w)) (id' d) (userId w) #
               (if fault_at 1 (remote w) = NoFault then [Select (userId w)] else [])) \<and>
        map (\<lambda>x. (id' x, user_id x)) (rows (remote (snd (saveBankDetails fd w)))) =
          map (\<lambda>x. (id' x, user_id x)) (rows (remote w)))"
proof (intro conjI impI)
  assume a: "find (\<lambda>d. user_id d = userId w) (rows (remote w)) = None"
  then have e: "existing_id w = None" by (simp add: existing_id_def)
  from assms e
  show "requests (remote (snd (saveBankDetails fd w))) =
          requests (remote w) @ SelectId (userId w) #
            (if lookup_fails (fault_at 0 (remote w)) then []
             else Insert (userId w) (bankPayload_of fd (useForBoth w)) #
               (if fault_at 1 (remote w) = NoFault then [Select (userId w)] else []))"
    by (simp add: save_remote save_write_requests)
  from assms e
  show "rows (remote (snd (saveBankDetails fd w))) =
          (if \<not> lookup_fails (fault_at 0 (remote w)) \<and> fault_at 1 (remote w) = NoFault
           then rows (remote w) @
                  [new_row (new_id (next_id (remote w))) (userId w)
                     (bankPayload_of fd (useForBoth w))]
           else rows (remote w))"
    by (simp add: save_remote save_write_rows)
next
  assume a: "filter (\<lambda>d. user_id d = userId w) (rows (remote w)) = [d] \<and> id' d \<noteq> [] \<and>
      fault_at 0 (remote w) \<noteq> ErrorCode (Some ''PGRST116'')"
  then have found: "find (\<lambda>d. user_id d = userId w) (rows (remote w)) = Some d"
    by (simp add: filter_single_find)
  from a have served: "\<not> lookup_fails (fault_at 0 (remote w)) \<Longrightarrow> fault_at 0 (remote w) = NoFault"
    by (cases "fault_at 0 (remote w)") (simp_all add: lookup_fails_def)
  show "requests (remote (snd (saveBankDetails fd w))) =
          requests (remote w) @ SelectId (userId w) #
            (if lookup_fails (fault_at 0 (remote w)) then []
             else Update (bankPayload_of fd (useForBoth w)) (id' d) (userId w) #
               (if fault_at 1 (remote w) = NoFault then [Select (userId w)] else []))"
  proof (cases "lookup_fails (fault_at 0 (remote w))")
    case True
    with assms show ?thesis by (simp add: save_remote)
  next
    case False
    with served found a have "existing_id w = Some (id' d)" by (simp add: existing_id_def)
    with assms False show ?thesis by (simp add: save_remote save_write_requests)
  qed
  show "map (\<lambda>x. (id' x, user_id x)) (rows (remote (snd (saveBankDetails fd w)))) =
          map (\<lambda>x. (id' x, user_id x)) (rows (remote w))"
  proof (cases "lookup_fails (fault_at 0 (remote w))")
    case True
    with assms show ?thesis by (simp add: save_remote)
  next
    case False
    with served found a have "existing_id w = Some (id' d)" by (simp add: existing_id_def)
    with assms False show ?thesis by (simp add: save_remote save_write_rows set_columns_keys)
  qed
qed

theorem save_inserts_or_updates_witness:
  "userId (initial ''B'' (remote_A [])) \<noteq> [] \<and>
   find (\<lambda>d. user_id d = userId (initial ''B'' (remote_A [])))
     (rows (remote (initial ''B'' (remote_A [])))) = None \<and>
   requests (remote (snd (saveBankDetails jane (initial ''B'' (remote_A []))))) =
     [SelectId ''B'', Insert ''B'' (bankPayload_of jane False), Select ''B''] \<and>
   rows (remote (snd (saveBankDetails jane (initial ''B'' (remote_A []))))) =
     [row_A, new_row (new_id 1) ''B'' (bankPayload_of jane False)] \<and>
   userId (mounted_A []) \<noteq> [] \<and>
   filter (\<lambda>d. user_id d = userId (mounted_A [])) (rows (remote (mounted_A []))) = [row_A] \<and>
   id' row_A \<noteq> [] \<and>
   fault_at 0 (remote (mounted_A [])) \<noteq> ErrorCode (Some ''PGRST116'') \<and>
   requests (remote (snd (saveBankDetails jane (mounted_A [])))) =
     [Select ''A'', SelectId ''A'', Update (bankPayload_of jane True) (id' row_A) ''A'',
      Select ''A''] \<and>
   map (\<lambda>x. (id' x, user_id x)) (rows (remote (snd (saveBankDetails jane (mounted_A []))))) =
     [(''#'', ''A'')]"
proof -
  let ?b = "initial ''B'' (remote_A [])"
  have b1: "userId ?b \<noteq> []" by (simp add: initial_def)
  have b2: "find (\<lambda>d. user_id d = userId ?b) (rows (remote ?b)) = None"
    by (simp add: initial_def remote_A_def row_A_eq)
  have b3: "fault_at 0 (remote ?b) = NoFault" "fault_at 1 (remote ?b) = NoFault"
    by (simp_all add: initial_def remote_A_def fault_at_def)
  have a1: "userId (mounted_A []) \<noteq> []" by (simp add: mounted_A_eq)
  have a2: "filter (\<lambda>d. user_id d = userId (mounted_A [])) (rows (remote (mounted_A []))) =
      [row_A]"
    by (simp add: mounted_A_eq row_A_eq)
  have a3: "id' row_A \<noteq> []" by (simp add: row_A_eq)
  have a4: "fault_at 0 (remote (mounted_A [])) = NoFault"
    "fault_at 1 (remote (mounted_A [])) = NoFault"
    by (simp_all add: mounted_A_eq fault_at_def)
  have b: "requests (remote ?b) = [] \<and> rows (remote ?b) = [row_A] \<and>
      next_id (remote ?b) = 1 \<and> useForBoth ?b = False \<and> userId ?b = ''B''"
    by (simp add: initial_def remote_A_def)
  have a: "requests (remote (mounted_A [])) = [Select ''A''] \<and>
      rows (remote (mounted_A [])) = [row_A] \<and> useForBoth (mounted_A []) = True \<and>
      userId (mounted_A []) = ''A''"
    by (simp add: mounted_A_eq)
  from save_inserts_or_updates [OF b1, of jane row_A] b2 b3 b
  have "requests (remote (snd (saveBankDetails jane ?b))) =
        [SelectId ''B'', Insert ''B'' (bankPayload_of jane False), Select ''B''] \<and>
      rows (remote (snd (saveBankDetails jane ?b))) =
        [row_A, new_row (new_id 1) ''B'' (bankPayload_of jane False)]"
    by (simp add: lookup_fails_def)
  moreover
  from save_inserts_or_updates [OF a1, of jane row_A] a2 a3 a4 a
  have "requests (remote (snd (saveBankDetails jane (mounted_A [])))) =
        [Select ''A'', SelectId ''A'', Update (bankPayload_of jane True) (id' row_A) ''A'',
         Select ''A''] \<and>
      map (\<lambda>x. (id' x, user_id x)) (rows (remote (snd (saveBankDetails jane (mounted_A []))))) =
        [(''#'', ''A'')]"
    by (simp add: lookup_fails_def row_A_eq)
  ultimately show ?thesis using b1 b2 a1 a2 a3 a4 by simp
qed

lemma save_try_frame:
  "isProcessing (snd (save_try fd w)) = isProcessing w"
  "userId (snd (save_try fd w)) = userId w"
  by (cases "lookup_fails (fault_at 0 (remote w))";
      simp add: save_try_lookup_fails save_try_lookup_ok fetch_frame toast_def)+

subsection \<open>Save, then fetch\<close>

lemma find_append_fresh: "find P xs = None \<Longrightarrow> P x \<Longrightarrow> find P (xs @ [x]) = Some x"
  by (induction xs) (auto split: if_splits)

lemma save_userId: "userId (snd (saveBankDetails fd w)) = userId w"
proof (cases "userId w = []")
  case True
  then show ?thesis by (simp add: save_no_user)
next
  case False
  have "userId (snd (save_try fd (w\<lparr>isProcessing := True\<rparr>))) = userId w"
    by (simp add: save_try_frame)
  with False show ?thesis
    by (auto simp add: saveBankDetails_def toast_def split: prod.splits sum.splits)
qed

text \<open>
  Claim C8. For a user without a row and with \<open>useForBoth\<close> set, when the lookup and the
  insert of the save and the fetch after it are served, saving the form values Jane Doe,
  12345, 67890, First Bank and then fetching yields a local record with exactly these
  four strings and the flag true, owned by the user; the local flag is true as well.
  The refreshing fetch inside the save may fail or not.
\<close>

theorem save_then_fetch_round_trip:
  assumes "userId w \<noteq> []"
    and "find (\<lambda>d. user_id d = userId w) (rows (remote w)) = None"
    and "useForBoth w = True"
    and "\<not> lookup_fails (fault_at 0 (remote w)) \<and> fault_at 1 (remote w) = NoFault \<and>
         fault_at 3 (remote w) = NoFault"
  shows "fst (saveBankDetails jane w) = True \<and>
    map_option
      (\<lambda>d. (account_name d, account_number d, routing_number d, bank_name d, use_for_both d,
            user_id d))
      (bankDetails (fetchBankDetails (snd (saveBankDetails jane w)))) =
      Some (''Jane Doe'', ''12345'', ''67890'', ''First Bank'', Some True, userId w) \<and>
    useForBoth (fetchBankDetails (snd (saveBankDetails jane w))) = True"
proof -
  let ?row = "new_row (new_id (next_id (remote w))) (userId w) (bankPayload_of jane (useForBoth w))"
  let ?w1 = "snd (saveBankDetails jane w)"
  have ok: "fst (saveBankDetails jane w) = True"
    using assms(1,4) by (simp add: save_succeeds)
  have e: "existing_id w = None" using assms(2) by (simp add: existing_id_def)
  have u: "userId ?w1 = userId w" by (rule save_userId)
  have r: "remote ?w1 = snd (receive (Select (userId w)) (save_write jane w))"
    using assms(1,4) by (simp add: save_remote)
  have rows: "rows (remote ?w1) = rows (remote w) @ [?row]"
    using assms(4) e by (simp add: r save_write_rows)
  have "user_id ?row = userId w" by (simp add: new_row_def)
  with assms(2) have found: "find (\<lambda>d. user_id d = userId w) (rows (remote ?w1)) = Some ?row"
    by (simp add: rows find_append_fresh)
  have f: "fault_at 0 (remote ?w1) = NoFault"
    using assms(4) by (simp add: r save_write_fault_at numeral_3_eq_3)
  have "fetchBankDetails ?w1 =
      ?w1\<lparr>bankDetails := Some ?row,
          useForBoth := (case use_for_both ?row of Some b \<Rightarrow> b | None \<Rightarrow> False),
          remote := snd (receive (Select (userId ?w1)) (remote ?w1))\<rparr>"
    using assms(1) f found u
    by (subst fetch_success) (simp_all add: lookup_fails_def)
  moreover have "accountName jane = ''Jane Doe''" "accountNumber jane = ''12345''"
    "routingNumber jane = ''67890''" "bankName jane = ''First Bank''"
    by (simp_all add: jane_def)
  ultimately show ?thesis
    using assms(3) ok by (simp add: new_row_def bankPayload_of_def)
qed

theorem save_then_fetch_round_trip_witness:
  "userId (setUseForBoth True (useBankDetails ''u1'' empty_remote)) \<noteq> [] \<and>
   find (\<lambda>d. user_id d = userId (setUseForBoth True (useBankDetails ''u1'' empty_remote)))
     (rows (remote (setUseForBoth True (useBankDetails ''u1'' empty_remote)))) = None \<and>
   useForBoth (setUseForBoth True (useBankDetails ''u1'' empty_remote)) = True \<and>
   fault_at 3 (remote (setUseForBoth True (useBankDetails ''u1'' empty_remote))) = NoFault \<and>
   fst (saveBankDetails jane (setUseForBoth True (useBankDetails ''u1'' empty_remote))) = True \<and>
   map_option
     (\<lambda>d. (account_name d, account_number d, routing_number d, bank_name d, use_for_both d,
           user_id d))
     (bankDetails (fetchBankDetails (snd (saveBankDetails jane
        (setUseForBoth True (useBankDetails ''u1'' empty_remote)))))) =
     Some (''Jane Doe'', ''12345'', ''67890'', ''First Bank'', Some True, ''u1'') \<and>
   useForBoth (fetchBankDetails (snd (saveBankDetails jane
       (setUseForBoth True (useBankDetails ''u1'' empty_remote))))) = True"
proof -
  let ?w = "setUseForBoth True (useBankDetails ''u1'' empty_remote)"
  have w: "?w = \<lparr>userId = ''u1'', bankDetails = None, isProcessing = False, useForBoth = True,
      toasts = [],
      remote = \<lparr>rows = [], next_id = 0, faults = [], requests = [Select ''u1'']\<rparr>\<rparr>"
    by (simp add: setUseForBoth_def useBankDetails_def useEffect_userId_def initial_def
        empty_remote_def fetchBankDetails_def fetch_resolved_def select_maybeSingle_eq
        receive_def fault_at_def not_no_rows_def)
  have h1: "userId ?w \<noteq> []" by (simp add: w)
  have h2: "find (\<lambda>d. user_id d = userId ?w) (rows (remote ?w)) = None" by (simp add: w)
  have h3: "useForBoth ?w = True" by (simp add: w)
  have h4: "\<not> lookup_fails (fault_at 0 (remote ?w)) \<and> fault_at 1 (remote ?w) = NoFault \<and>
      fault_at 3 (remote ?w) = NoFault"
    by (simp add: w fault_at_def lookup_fails_def)
  have u: "userId ?w = ''u1''" by (simp add: w)
  from save_then_fetch_round_trip [OF h1 h2 h3 h4] h1 h2 h3 h4 show ?thesis
    by (simp only: u) simp
qed

subsection \<open>The record and its owner\<close>


subsection \<open>The payment summary\<close>

lemma digit_0: "digit 0 = CHR ''0''"
  by (simp add: digit_def)

lemma dec_small: "n < 10 \<Longrightarrow> dec n = [digit n]"
  by (subst dec.simps) simp

lemma dec_step: "10 \<le> n \<Longrightarrow> dec n = dec (n div 10) @ [digit (n mod 10)]"
  by (subst dec.simps) simp

lemma dec_last_two:
  assumes "100 \<le> n"
  shows "dec n = dec (n div 100) @ [digit (n div 10 mod 10), digit (n mod 10)]"
proof -
  from assms have "10 \<le> n" and "10 \<le> n div 10" by simp_all
  then have "dec n = (dec (n div 10 div 10) @ [digit (n div 10 mod 10)]) @ [digit (n mod 10)]"
    by (simp add: dec_step)
  moreover have "n div 10 div 10 = n div 100" by (simp add: div_mult2_eq [symmetric])
  ultimately show ?thesis by simp
qed

lemma dec_not_empty: "dec n \<noteq> []"
  by (cases "n < 10") (simp_all add: dec_small dec_step)

lemma toFixed_2:
  assumes "\<bar>q\<bar> < 10 ^ 21"
  shows "toFixed toString (Finite q) 2 =
    (if q < 0 then ''-'' else []) @
    dec (nat \<lfloor>\<bar>q\<bar> * 100 + 1 / 2\<rfloor> div 100) @ ''.'' @
    [digit (nat \<lfloor>\<bar>q\<bar> * 100 + 1 / 2\<rfloor> div 10 mod 10),
     digit (nat \<lfloor>\<bar>q\<bar> * 100 + 1 / 2\<rfloor> mod 10)]"
proof -
  define n where "n = nat \<lfloor>\<bar>q\<bar> * 100 + 1 / 2\<rfloor>"
  define s :: string where "s = (if q < 0 then ''-'' else [])"
  have shape: "(let m = dec n;
                    m' = (if length m \<le> 2 then replicate (2 + 1 - length m) (CHR ''0'') @ m
                          else m);
                    k = length m'
                in take (k - 2) m' @ ''.'' @ drop (k - 2) m') =
      dec (n div 100) @ ''.'' @ [digit (n div 10 mod 10), digit (n mod 10)]"
  proof -
    consider "n < 10" | "10 \<le> n" "n < 100" | "100 \<le> n" by linarith
    then show ?thesis
    proof cases
      case 1
      then show ?thesis by (simp add: dec_small numeral_3_eq_3 digit_0)
    next
      case 2
      then have "n div 10 < 10" and "n div 100 = 0" by simp_all
      with 2 show ?thesis by (simp add: dec_step dec_small digit_0)
    next
      case 3
      have "dec (n div 100) \<noteq> []" by (rule dec_not_empty)
      then have "0 < length (dec (n div 100))" by simp
      with 3 show ?thesis by (simp add: dec_last_two)
    qed
  qed
  from assms have "\<not> 10 ^ 21 \<le> \<bar>q\<bar>" by simp
  then show ?thesis
    using shape by (simp add: toFixed_def Let_def n_def)
qed

text \<open>
  Claim C9, as amended. The component is a function of the rate alone. It renders the
  rate twice, each time as \<^verbatim>\<open>monthlyRate.toFixed(2)\<close> beside a \<^verbatim>\<open>DollarSign\<close> glyph,
  once as the line item and once as the total, so the two amounts are the same text for
  every input, and the other texts do not depend on the rate. For a finite rate of
  magnitude below \<open>10\<^sup>2\<^sup>1\<close> that text is the rate rounded to the nearest hundredth (the
  one of greater magnitude of two): a minus sign for a negative rate, the decimal digits
  of the whole part, a point and exactly two decimals. For a finite rate of magnitude
  \<open>10\<^sup>2\<^sup>1\<close> or more it is the sign and what the number-to-string conversion of the
  language prints. For a rate that is not a number or is infinite it is the name of that
  value.
\<close>

theorem PaymentSummary_renders_rate_twice:
  "amounts (PaymentSummary toString monthlyRate) =
     [toFixed toString monthlyRate 2, toFixed toString monthlyRate 2] \<and>
   texts (PaymentSummary toString monthlyRate) =
     [''Payment Summary'', ''Rent per month:'', toFixed toString monthlyRate 2,
      ''Total Rent Amount:'', toFixed toString monthlyRate 2] \<and>
   (\<bar>q\<bar> < 10 ^ 21 \<longrightarrow>
      toFixed toString (Finite q) 2 =
        (if q < 0 then ''-'' else []) @
        dec (nat \<lfloor>\<bar>q\<bar> * 100 + 1 / 2\<rfloor> div 100) @ ''.'' @
        [digit (nat \<lfloor>\<bar>q\<bar> * 100 + 1 / 2\<rfloor> div 10 mod 10),
         digit (nat \<lfloor>\<bar>q\<bar> * 100 + 1 / 2\<rfloor> mod 10)]) \<and>
   (10 ^ 21 \<le> \<bar>q\<bar> \<longrightarrow>
      toFixed toString (Finite q) 2 = (if q < 0 then ''-'' else []) @ toString \<bar>q\<bar>) \<and>
   toFixed toString NaN 2 = ''NaN'' \<and>
   toFixed toString Infinity 2 = ''Infinity'' \<and>
   toFixed toString NegInfinity 2 = ''-Infinity''"
  by (simp add: PaymentSummary_def toFixed_2) (simp add: toFixed_def)

text \<open>
  Instances: the rate 2.5; the rate \<open>-0.001\<close>, which rounds to zero and keeps its sign; the
  double that the literal \<^verbatim>\<open>1.005\<close> of the language denotes, which lies below 1.005;
  and \<open>10\<^sup>2\<^sup>1\<close>.
\<close>

theorem PaymentSummary_renders_rate_twice_witness:
  "\<bar>5 / 2 :: rat\<bar> < 10 ^ 21 \<and>
   amounts (PaymentSummary (\<lambda>q. []) (Finite (5 / 2))) = [''2.50'', ''2.50''] \<and>
   \<bar>- 1 / 1000 :: rat\<bar> < 10 ^ 21 \<and>
   amounts (PaymentSummary (\<lambda>q. []) (Finite (- 1 / 1000))) = [''-0.00'', ''-0.00''] \<and>
   \<bar>1131529406376837 / 1125899906842624 :: rat\<bar> < 10 ^ 21 \<and>
   amounts (PaymentSummary (\<lambda>q. []) (Finite (1131529406376837 / 1125899906842624))) =
     [''1.00'', ''1.00''] \<and>
   (10 ^ 21 :: rat) \<le> \<bar>10 ^ 21\<bar> \<and>
   amounts (PaymentSummary (\<lambda>q. ''1e+21'') (Finite (10 ^ 21))) = [''1e+21'', ''1e+21'']"
proof -
  let ?d = "1131529406376837 / 1125899906842624 :: rat"
  have h1: "\<bar>5 / 2 :: rat\<bar> < 10 ^ 21" and h2: "\<bar>- 1 / 1000 :: rat\<bar> < 10 ^ 21"
    and h3: "\<bar>?d\<bar> < 10 ^ 21" and h4: "(10 ^ 21 :: rat) \<le> \<bar>10 ^ 21\<bar>"
    by simp_all
  have "\<bar>5 / 2 :: rat\<bar> * 100 + 1 / 2 = 501 / 2" by simp
  moreover have "\<lfloor>501 / 2 :: rat\<rfloor> = 250" by (rule floor_unique) simp_all
  ultimately have n1: "nat \<lfloor>\<bar>5 / 2 :: rat\<bar> * 100 + 1 / 2\<rfloor> = 250" by simp
  have "\<bar>- 1 / 1000 :: rat\<bar> * 100 + 1 / 2 = 3 / 5" by simp
  moreover have "\<lfloor>3 / 5 :: rat\<rfloor> = 0" by (rule floor_unique) simp_all
  ultimately have n2: "nat \<lfloor>\<bar>- 1 / 1000 :: rat\<bar> * 100 + 1 / 2\<rfloor> = 0" by simp
  have "\<lfloor>\<bar>?d\<bar> * 100 + 1 / 2\<rfloor> = 100" by (rule floor_unique) simp_all
  then have n3: "nat \<lfloor>\<bar>?d\<bar> * 100 + 1 / 2\<rfloor> = 100" by simp
  from PaymentSummary_renders_rate_twice [of "\<lambda>q. []" "Finite (5 / 2)" "5 / 2"] h1
  have "amounts (PaymentSummary (\<lambda>q. []) (Finite (5 / 2))) = [''2.50'', ''2.50'']"
    by (simp only: n1) (simp add: dec_small digit_def)
  moreover
  from PaymentSummary_renders_rate_twice [of "\<lambda>q. []" "Finite (- 1 / 1000)" "- 1 / 1000"] h2
  have "amounts (PaymentSummary (\<lambda>q. []) (Finite (- 1 / 1000))) = [''-0.00'', ''-0.00'']"
    by (simp only: n2) (simp add: dec_small digit_def)
  moreover
  from PaymentSummary_renders_rate_twice [of "\<lambda>q. []" "Finite ?d" ?d] h3
  have "amounts (PaymentSummary (\<lambda>q. []) (Finite ?d)) = [''1.00'', ''1.00'']"
    by (simp only: n3) (simp add: dec_small digit_def)
  moreover
  from PaymentSummary_renders_rate_twice [of "\<lambda>q. ''1e+21''" "Finite (10 ^ 21)" "10 ^ 21"] h4
  have "amounts (PaymentSummary (\<lambda>q. ''1e+21'') (Finite (10 ^ 21))) = [''1e+21'', ''1e+21'']"
    by simp
  ultimately show ?thesis using h1 h2 h3 h4 by simp
qed

text \<open>
  The claim as first stated fails: a rate that is not a number is rendered as the text
  \<open>NaN\<close>, which has no decimals.
\<close>

theorem PaymentSummary_NaN:
  "amounts (PaymentSummary (\<lambda>q. []) NaN) = [''NaN'', ''NaN''] \<and> CHR ''.'' \<notin> set ''NaN''"
  by (simp add: PaymentSummary_def toFixed_def)

subsection \<open>Events: tasks in flight\<close>






lemma filter_update_same:
  "k < length xs \<Longrightarrow> Q y = Q (xs ! k) \<Longrightarrow>
     length (filter Q (xs[k := y])) = length (filter Q xs)"
proof (induction xs arbitrary: k)
  case Nil
  then show ?case by simp
next
  case (Cons x xs)
  then show ?case by (cases k) auto
qed

lemma filter_remove_nth:
  assumes "k < length xs"
  shows "length (filter Q (remove_nth k xs)) =
    length (filter Q xs) - (if Q (xs ! k) then 1 else 0)"
proof -
  from assms have "xs = take k xs @ xs ! k # drop (Suc k) xs"
    by (simp add: id_take_nth_drop)
  then have "filter Q xs = filter Q (take k xs @ xs ! k # drop (Suc k) xs)" by simp
  then show ?thesis by (simp add: remove_nth_def)
qed

subsection \<open>Events: whose record the hook holds\<close>




lemma select_answer_ok: "answer_ok (Fetched u (fst (select_maybeSingle u r)))"
proof (cases "fault_at 0 r")
  case NoFault
  show ?thesis
  proof (cases "find (\<lambda>d. user_id d = u) (rows r)")
    case None
    with NoFault show ?thesis by (simp add: select_maybeSingle_eq)
  next
    case (Some d)
    then have "user_id d = u" by (rule find_user_id)
    with NoFault Some show ?thesis by (simp add: select_maybeSingle_eq)
  qed
next
  case (ErrorCode c)
  then show ?thesis by (simp add: select_maybeSingle_eq)
next
  case Reject
  then show ?thesis by (simp add: select_maybeSingle_eq)
qed

text \<open>Serving a request changes the remote service and marks the task served.\<close>

lemma serve_shape:
  assumes "k < length (pending a)"
  shows "\<exists>r t. serve k a = a\<lparr>hook := (hook a)\<lparr>remote := r\<rparr>, pending := (pending a)[k := t]\<rparr> \<and>
    (\<forall>v. started_for v t = started_for v (pending a ! k)) \<and>
    mutating t = mutating (pending a ! k) \<and>
    (answer_ok (pending a ! k) \<longrightarrow> answer_ok t)"
proof (cases "pending a ! k")
  case (Fetching u)
  have "answer_ok (Fetched u (fst (select_maybeSingle u (remote (hook a)))))"
    by (rule select_answer_ok)
  with assms Fetching show ?thesis
    by (cases "select_maybeSingle u (remote (hook a))")
      (simp add: serve_def, intro exI conjI, rule refl, simp_all)
next
  case (Fetched u resp)
  with assms have e: "serve k a = a" by (simp add: serve_def)
  have "serve k a = a\<lparr>hook := (hook a)\<lparr>remote := remote (hook a)\<rparr>,
      pending := (pending a)[k := pending a ! k]\<rparr>"
    by (simp add: e)
  then show ?thesis by blast
next
  case (Looking fd u flag)
  with assms show ?thesis
    by (cases "select_id_maybeSingle u (remote (hook a))")
      (simp add: serve_def, intro exI conjI, rule refl, simp_all)
next
  case (Looked fd u flag resp)
  with assms have e: "serve k a = a" by (simp add: serve_def)
  have "serve k a = a\<lparr>hook := (hook a)\<lparr>remote := remote (hook a)\<rparr>,
      pending := (pending a)[k := pending a ! k]\<rparr>"
    by (simp add: e)
  then show ?thesis by blast
next
  case (Updating u p i)
  with assms show ?thesis
    by (cases "update_eq p i u (remote (hook a))")
      (simp add: serve_def, intro exI conjI, rule refl, simp_all)
next
  case (Inserting u p)
  with assms show ?thesis
    by (cases "insert_row u p (remote (hook a))")
      (simp add: serve_def, intro exI conjI, rule refl, simp_all)
next
  case (Written u resp)
  with assms have e: "serve k a = a" by (simp add: serve_def)
  have "serve k a = a\<lparr>hook := (hook a)\<lparr>remote := remote (hook a)\<rparr>,
      pending := (pending a)[k := pending a ! k]\<rparr>"
    by (simp add: e)
  then show ?thesis by blast
next
  case (Deleting i u)
  with assms show ?thesis
    by (cases "delete_eq i u (remote (hook a))")
      (simp add: serve_def, intro exI conjI, rule refl, simp_all)
next
  case (Deleted u resp)
  with assms have e: "serve k a = a" by (simp add: serve_def)
  have "serve k a = a\<lparr>hook := (hook a)\<lparr>remote := remote (hook a)\<rparr>,
      pending := (pending a)[k := pending a ! k]\<rparr>"
    by (simp add: e)
  then show ?thesis by blast
qed

lemma serve_late: "\<not> k < length (pending a) \<Longrightarrow> serve k a = a"
  by (simp add: serve_def)













lemmas run_defs =
  mount_def call_fetch_def call_save_def call_delete_def render_def serve_def arrive_def
  caught_def remove_nth_def select_maybeSingle_eq select_id_maybeSingle_eq update_eq_def
  insert_row_def delete_eq_def receive_def fault_at_def fetch_resolved_def not_no_rows_def
  toast_def initial_def




subsection \<open>Events: the busy flag\<close>

lemma busy_count: "busy a = (0 < length (filter mutating (pending a)))"
  by (auto simp add: busy_def list_ex_iff filter_empty_conv)

lemma serve_count:
  "isProcessing (hook (serve k a)) = isProcessing (hook a) \<and>
   length (filter mutating (pending (serve k a))) = length (filter mutating (pending a))"
proof (cases "k < length (pending a)")
  case False
  then show ?thesis by (simp add: serve_late)
next
  case True
  from serve_shape [OF True] obtain r t where
    s: "serve k a = a\<lparr>hook := (hook a)\<lparr>remote := r\<rparr>, pending := (pending a)[k := t]\<rparr>"
    and m: "mutating t = mutating (pending a ! k)"
    by blast
  from True m show ?thesis by (simp add: s filter_update_same)
qed

lemma caught_count:
  assumes "k < length (pending a)" and "mutating (pending a ! k)"
  shows "\<not> isProcessing (hook (caught t k a)) \<and>
    length (filter mutating (pending (caught t k a))) =
      length (filter mutating (pending a)) - 1"
  using assms by (simp add: caught_def filter_remove_nth)

text \<open>
  An arriving answer leaves the flag and the number of saves and deletes in flight as they
  are, or it ends a save or delete and the flag is false.
\<close>

lemma arrive_count:
  "(isProcessing (hook (arrive k a)) = isProcessing (hook a) \<and>
    length (filter mutating (pending (arrive k a))) = length (filter mutating (pending a))) \<or>
   (k < length (pending a) \<and> mutating (pending a ! k) \<and>
    \<not> isProcessing (hook (arrive k a)) \<and>
    length (filter mutating (pending (arrive k a))) =
      length (filter mutating (pending a)) - 1)"
proof (cases "k < length (pending a)")
  case False
  then show ?thesis by (simp add: arrive_def)
next
  case True
  show ?thesis
  proof (cases "pending a ! k")
    case (Fetching v)
    with True show ?thesis by (simp add: arrive_def)
  next
    case (Fetched v resp)
    with True show ?thesis
      by (simp add: arrive_def filter_remove_nth fetch_resolved_def toast_def
          split: response.splits option.splits)
  next
    case (Looking fd v flag)
    with True show ?thesis by (simp add: arrive_def)
  next
    case (Looked fd v flag resp)
    then have m: "mutating (pending a ! k)" by simp
    note c = caught_count [OF True m, of save_error_toast]
    show ?thesis
    proof (cases resp)
      case Rejected
      with True Looked m c show ?thesis by (simp add: arrive_def)
    next
      case (Resolved existingData checkError)
      show ?thesis
      proof (cases "not_no_rows checkError")
        case True
        with \<open>k < length (pending a)\<close> Looked Resolved m c show ?thesis
          by (simp add: arrive_def)
      next
        case False
        with True Looked Resolved show ?thesis
          by (simp add: arrive_def Let_def filter_update_same split: option.splits)
      qed
    qed
  next
    case (Updating v p i)
    with True show ?thesis by (simp add: arrive_def)
  next
    case (Inserting v p)
    with True show ?thesis by (simp add: arrive_def)
  next
    case (Written v resp)
    then have m: "mutating (pending a ! k)" by simp
    note c = caught_count [OF True m, of save_error_toast]
    show ?thesis
    proof (cases resp)
      case Rejected
      with True Written m c show ?thesis by (simp add: arrive_def)
    next
      case (Resolved x updateError)
      show ?thesis
      proof (cases updateError)
        case None
        with True Written Resolved m show ?thesis
          by (simp add: arrive_def filter_remove_nth toast_def)
      next
        case (Some e)
        with True Written Resolved m c show ?thesis by (simp add: arrive_def)
      qed
    qed
  next
    case (Deleting i v)
    with True show ?thesis by (simp add: arrive_def)
  next
    case (Deleted v resp)
    then have m: "mutating (pending a ! k)" by simp
    note c = caught_count [OF True m, of delete_error_toast]
    show ?thesis
    proof (cases resp)
      case Rejected
      with True Deleted m c show ?thesis by (simp add: arrive_def)
    next
      case (Resolved x err)
      show ?thesis
      proof (cases err)
        case None
        with True Deleted Resolved m show ?thesis
          by (simp add: arrive_def filter_remove_nth toast_def)
      next
        case (Some e)
        with True Deleted Resolved m c show ?thesis by (simp add: arrive_def)
      qed
    qed
  qed
qed

lemma call_save_count:
  "call_save fd a = a \<or>
   (isProcessing (hook (call_save fd a)) \<and>
    length (filter mutating (pending (call_save fd a))) =
      Suc (length (filter mutating (pending a))))"
  by (simp add: call_save_def)

lemma call_delete_count:
  "call_delete a = a \<or>
   (isProcessing (hook (call_delete a)) \<and>
    length (filter mutating (pending (call_delete a))) =
      Suc (length (filter mutating (pending a))))"
  by (simp add: call_delete_def split: option.splits)

lemma other_count:
  "isProcessing (hook (call_fetch a)) = isProcessing (hook a) \<and>
   length (filter mutating (pending (call_fetch a))) = length (filter mutating (pending a))"
  "isProcessing (hook (render u a)) = isProcessing (hook a) \<and>
   length (filter mutating (pending (render u a))) = length (filter mutating (pending a))"
  by (simp_all add: call_fetch_def render_def)

text \<open>With no save or delete in flight the flag is false, whatever has happened.\<close>

lemma idle_exec:
  assumes "0 < length (filter mutating (pending a)) \<or> \<not> isProcessing (hook a)"
  shows "0 < length (filter mutating (pending (exec e a))) \<or> \<not> isProcessing (hook (exec e a))"
proof (cases e)
  case CallFetch
  with assms other_count(1) [of a] show ?thesis by simp
next
  case (CallSave fd)
  with assms call_save_count [of fd a] show ?thesis by auto
next
  case CallDelete
  with assms call_delete_count [of a] show ?thesis by auto
next
  case (SetUseForBoth b)
  with assms show ?thesis by (simp add: setUseForBoth_def)
next
  case (Render u)
  with assms other_count(2) [of u a] show ?thesis by simp
next
  case (Serve k)
  with assms serve_count [of k a] show ?thesis by simp
next
  case (Arrive k)
  with assms arrive_count [of k a] show ?thesis by auto
qed

lemma idle_execs:
  "0 < length (filter mutating (pending a)) \<or> \<not> isProcessing (hook a) \<Longrightarrow>
   0 < length (filter mutating (pending (execs es a))) \<or> \<not> isProcessing (hook (execs es a))"
proof (induction es arbitrary: a)
  case Nil
  then show ?case by simp
next
  case (Cons e es)
  from Cons.prems have "0 < length (filter mutating (pending (exec e a))) \<or>
      \<not> isProcessing (hook (exec e a))"
    by (rule idle_exec)
  then show ?case using Cons.IH by simp
qed

text \<open>With one save or delete at a time the flag is true exactly while one is in flight.\<close>

lemma single_exec:
  assumes "single a" and "one_at_a_time [e] a"
  shows "single (exec e a)"
proof (cases e)
  case CallFetch
  with assms(1) other_count(1) [of a] show ?thesis by (simp add: single_def busy_count)
next
  case (CallSave fd)
  with assms call_save_count [of fd a] show ?thesis by (auto simp add: single_def busy_count)
next
  case CallDelete
  with assms call_delete_count [of a] show ?thesis by (auto simp add: single_def busy_count)
next
  case (SetUseForBoth b)
  with assms(1) show ?thesis by (simp add: single_def busy_count setUseForBoth_def)
next
  case (Render u)
  with assms(1) other_count(2) [of u a] show ?thesis by (simp add: single_def busy_count)
next
  case (Serve k)
  with assms(1) serve_count [of k a] show ?thesis by (simp add: single_def busy_count)
next
  case (Arrive k)
  with assms(1) arrive_count [of k a] show ?thesis by (auto simp add: single_def busy_count)
qed

lemma single_execs:
  "single a \<Longrightarrow> one_at_a_time es a \<Longrightarrow> single (execs (take n es) a)"
proof (induction es arbitrary: a n)
  case Nil
  then show ?case by simp
next
  case (Cons e es)
  show ?case
  proof (cases n)
    case 0
    with Cons.prems show ?thesis by simp
  next
    case (Suc m)
    from Cons.prems(2) have "one_at_a_time [e] a" by simp
    with Cons.prems(1) have "single (exec e a)" by (rule single_exec)
    moreover from Cons.prems(2) have "one_at_a_time es (exec e a)" by simp
    ultimately have "single (execs (take m es) (exec e a))" by (rule Cons.IH)
    with Suc show ?thesis by simp
  qed
qed

lemma single_mount: "single (mount u r)"
  by (simp add: mount_def call_fetch_def single_def busy_def initial_def)

text \<open>
  Claim C7, as amended. A save or delete that passes its guard sets \<open>isProcessing\<close> before
  its first request is sent, and a call stopped by the guard changes nothing. Every
  arriving answer that ends a save or delete, on success or failure, leaves the flag
  false. So after every run of events from the first render the flag is false when no
  save or delete is in flight; and in every run in which a save or delete is called only
  while none is in flight, the flag is true exactly while one is in flight: from the call,
  through the serving and the arrival of each of its requests, until it ends.
\<close>

theorem isProcessing_while_in_flight:
  "(\<not> busy (execs es (mount u r)) \<longrightarrow>
      isProcessing (hook (execs es (mount u r))) = False) \<and>
   (one_at_a_time es (mount u r) \<longrightarrow>
      isProcessing (hook (execs (take n es) (mount u r))) =
        busy (execs (take n es) (mount u r))) \<and>
   (userId (hook a) \<noteq> [] \<longrightarrow>
      call_save fd a =
        a\<lparr>hook := (hook a)\<lparr>isProcessing := True\<rparr>,
          pending := pending a @ [Looking fd (userId (hook a)) (useForBoth (hook a))]\<rparr>) \<and>
   (userId (hook a) \<noteq> [] \<and> known_id (hook a) = Some i \<longrightarrow>
      call_delete a =
        a\<lparr>hook := (hook a)\<lparr>isProcessing := True\<rparr>,
          pending := pending a @ [Deleting i (userId (hook a))]\<rparr>) \<and>
   (userId (hook a) = [] \<longrightarrow> call_save fd a = a \<and> call_delete a = a) \<and>
   (known_id (hook a) = None \<longrightarrow> call_delete a = a) \<and>
   (length (filter mutating (pending (arrive k a))) < length (filter mutating (pending a)) \<longrightarrow>
      isProcessing (hook (arrive k a)) = False)"
proof (intro conjI impI)
  assume q: "\<not> busy (execs es (mount u r))"
  have "0 < length (filter mutating (pending (mount u r))) \<or> \<not> isProcessing (hook (mount u r))"
    by (simp add: mount_def call_fetch_def initial_def)
  then have "0 < length (filter mutating (pending (execs es (mount u r)))) \<or>
      \<not> isProcessing (hook (execs es (mount u r)))"
    by (rule idle_execs)
  with q show "isProcessing (hook (execs es (mount u r))) = False"
    by (simp add: busy_count)
next
  assume "one_at_a_time es (mount u r)"
  with single_mount have "single (execs (take n es) (mount u r))" by (rule single_execs)
  then show "isProcessing (hook (execs (take n es) (mount u r))) =
      busy (execs (take n es) (mount u r))"
    by (simp add: single_def)
next
  assume "userId (hook a) \<noteq> []"
  then show "call_save fd a =
      a\<lparr>hook := (hook a)\<lparr>isProcessing := True\<rparr>,
        pending := pending a @ [Looking fd (userId (hook a)) (useForBoth (hook a))]\<rparr>"
    by (simp add: call_save_def)
next
  assume "userId (hook a) \<noteq> [] \<and> known_id (hook a) = Some i"
  then show "call_delete a =
      a\<lparr>hook := (hook a)\<lparr>isProcessing := True\<rparr>,
        pending := pending a @ [Deleting i (userId (hook a))]\<rparr>"
    by (simp add: call_delete_def)
next
  assume "userId (hook a) = []"
  then show "call_save fd a = a" and "call_delete a = a"
    by (simp_all add: call_save_def call_delete_def)
next
  assume "known_id (hook a) = None"
  then show "call_delete a = a" by (simp add: call_delete_def)
next
  assume "length (filter mutating (pending (arrive k a))) < length (filter mutating (pending a))"
  with arrive_count [of k a] show "isProcessing (hook (arrive k a)) = False" by auto
qed

theorem isProcessing_while_in_flight_witness:
  "one_at_a_time [Serve 0, Arrive 0, CallSave jane, Serve 0, Arrive 0, Serve 0, Arrive 0]
     (mount ''A'' (remote_A [])) \<and>
   busy (execs (take 6 [Serve 0, Arrive 0, CallSave jane, Serve 0, Arrive 0, Serve 0, Arrive 0])
     (mount ''A'' (remote_A []))) \<and>
   isProcessing (hook (execs
     (take 6 [Serve 0, Arrive 0, CallSave jane, Serve 0, Arrive 0, Serve 0, Arrive 0])
     (mount ''A'' (remote_A [])))) = True \<and>
   \<not> busy (execs [Serve 0, Arrive 0, CallSave jane, Serve 0, Arrive 0, Serve 0, Arrive 0]
     (mount ''A'' (remote_A []))) \<and>
   isProcessing (hook (execs
     [Serve 0, Arrive 0, CallSave jane, Serve 0, Arrive 0, Serve 0, Arrive 0]
     (mount ''A'' (remote_A [])))) = False \<and>
   call_save jane \<lparr>hook = mounted_A [], pending = []\<rparr> =
     \<lparr>hook = (mounted_A [])\<lparr>isProcessing := True\<rparr>, pending = [Looking jane ''A'' True]\<rparr> \<and>
   call_delete \<lparr>hook = mounted_A [], pending = []\<rparr> =
     \<lparr>hook = (mounted_A [])\<lparr>isProcessing := True\<rparr>, pending = [Deleting ''#'' ''A'']\<rparr> \<and>
   call_save jane \<lparr>hook = initial [] empty_remote, pending = []\<rparr> =
     \<lparr>hook = initial [] empty_remote, pending = []\<rparr> \<and>
   call_delete \<lparr>hook = initial ''A'' empty_remote, pending = []\<rparr> =
     \<lparr>hook = initial ''A'' empty_remote, pending = []\<rparr> \<and>
   isProcessing (hook (arrive 0
     \<lparr>hook = (mounted_A [])\<lparr>isProcessing := True\<rparr>, pending = [Deleted ''A'' Rejected]\<rparr>)) =
     False"
proof -
  let ?es = "[Serve 0, Arrive 0, CallSave jane, Serve 0, Arrive 0, Serve 0, Arrive 0]"
  let ?m = "mount ''A'' (remote_A [])"
  let ?a = "\<lparr>hook = mounted_A [], pending = []\<rparr>"
  let ?b = "\<lparr>hook = initial [] empty_remote, pending = []\<rparr>"
  let ?c = "\<lparr>hook = initial ''A'' empty_remote, pending = []\<rparr>"
  let ?d = "\<lparr>hook = (mounted_A [])\<lparr>isProcessing := True\<rparr>, pending = [Deleted ''A'' Rejected]\<rparr>"
  have h1: "one_at_a_time ?es ?m"
    by (simp add: run_defs remote_A_def row_A_eq busy_def)
  have h2: "busy (execs (take 6 ?es) ?m)"
    by (simp add: run_defs remote_A_def row_A_eq busy_def)
  have h3: "\<not> busy (execs ?es ?m)"
    by (simp add: run_defs remote_A_def row_A_eq busy_def)
  have h4: "userId (hook ?a) \<noteq> [] \<and> known_id (hook ?a) = Some ''#''"
    by (simp add: mounted_A_eq known_id_def row_A_eq)
  have h5: "userId (hook ?b) = []" and h6: "known_id (hook ?c) = None"
    by (simp_all add: initial_def known_id_def)
  have h7: "length (filter mutating (pending (arrive 0 ?d))) < length (filter mutating (pending ?d))"
    by (simp add: arrive_def caught_def remove_nth_def)
  from isProcessing_while_in_flight [of ?es "''A''" "remote_A []" 6 ?a jane "''#''" 0]
    h1 h2 h3 h4
  have "isProcessing (hook (execs (take 6 ?es) ?m)) = True \<and>
      isProcessing (hook (execs ?es ?m)) = False \<and>
      call_save jane ?a =
        \<lparr>hook = (mounted_A [])\<lparr>isProcessing := True\<rparr>, pending = [Looking jane ''A'' True]\<rparr> \<and>
      call_delete ?a =
        \<lparr>hook = (mounted_A [])\<lparr>isProcessing := True\<rparr>, pending = [Deleting ''#'' ''A'']\<rparr>"
    by (simp add: mounted_A_eq)
  moreover
  from isProcessing_while_in_flight [of "[]" "''A''" "remote_A []" 0 ?b jane "''#''" 0] h5
  have "call_save jane ?b = ?b" by simp
  moreover
  from isProcessing_while_in_flight [of "[]" "''A''" "remote_A []" 0 ?c jane "''#''" 0] h6
  have "call_delete ?c = ?c" by simp
  moreover
  from isProcessing_while_in_flight [of "[]" "''A''" "remote_A []" 0 ?d jane "''#''" 0] h7
  have "isProcessing (hook (arrive 0 ?d)) = False" by simp
  ultimately show ?thesis using h1 h2 h3 by simp
qed

text \<open>
  The claim as first stated fails when invocations overlap. A save is in flight and a
  delete is called that its guard stops (no record is held): that delete has completed
  and the flag is still true. And of two saves in flight the first to end clears the
  flag while the lookup of the second has not been answered.
\<close>

theorem isProcessing_with_overlap:
  "call_delete (execs [Serve 0, Arrive 0, CallSave jane] (mount ''u1'' empty_remote)) =
     execs [Serve 0, Arrive 0, CallSave jane] (mount ''u1'' empty_remote) \<and>
   isProcessing (hook (execs [Serve 0, Arrive 0, CallSave jane, CallDelete]
     (mount ''u1'' empty_remote))) = True \<and>
   pending (execs [Serve 0, Arrive 0, CallSave jane, CallSave jane, Serve 0, Arrive 0,
       Serve 0, Arrive 0] (mount ''u1'' empty_remote)) =
     [Looking jane ''u1'' False, Fetching ''u1''] \<and>
   isProcessing (hook (execs [Serve 0, Arrive 0, CallSave jane, CallSave jane, Serve 0,
       Arrive 0, Serve 0, Arrive 0] (mount ''u1'' empty_remote))) = False"
  by (simp add: run_defs empty_remote_def known_id_def)

subsection \<open>One invocation as a run of events\<close>

text \<open>
  The functions of the first model are the events of the second with every request
  served and answered as soon as it is sent, whatever else is in flight.
\<close>

lemma remove_nth_last [simp]: "remove_nth (length xs) (xs @ [y]) = xs"
  by (simp add: remove_nth_def)

lemma fetch_as_events:
  "execs [CallFetch, Serve (length (pending a)), Arrive (length (pending a))] a =
     a\<lparr>hook := fetchBankDetails (hook a)\<rparr>"
proof (cases "userId (hook a) = []")
  case True
  then show ?thesis
    by (simp add: call_fetch_def serve_def arrive_def fetchBankDetails_def)
next
  case False
  then show ?thesis
    by (cases "select_maybeSingle (userId (hook a)) (remote (hook a))")
      (simp add: call_fetch_def serve_def arrive_def fetchBankDetails_def)
qed

lemma delete_as_events:
  "execs [CallDelete, Serve (length (pending a)), Arrive (length (pending a))] a =
     a\<lparr>hook := snd (deleteBankDetails (hook a))\<rparr>"
proof (cases "userId (hook a) = [] \<or> known_id (hook a) = None")
  case True
  then show ?thesis
    by (auto simp add: call_delete_def serve_def arrive_def deleteBankDetails_def)
next
  case False
  then obtain i where i: "known_id (hook a) = Some i" and u: "userId (hook a) \<noteq> []" by auto
  obtain resp r where d: "delete_eq i (userId (hook a)) (remote (hook a)) = (resp, r)"
    by (cases "delete_eq i (userId (hook a)) (remote (hook a))")
  show ?thesis
  proof (cases resp)
    case Rejected
    with i u d show ?thesis
      by (simp add: call_delete_def serve_def arrive_def caught_def deleteBankDetails_def
          delete_try_def toast_def)
  next
    case (Resolved x err)
    with i u d show ?thesis
      by (cases err)
        (simp_all add: call_delete_def serve_def arrive_def caught_def deleteBankDetails_def
          delete_try_def toast_def)
  qed
qed

lemma render_as_events:
  "execs [Render u, Serve (length (pending a)), Arrive (length (pending a))] a =
     a\<lparr>hook := rerender u (hook a)\<rparr>"
proof (cases "u = userId (hook a) \<or> u = []")
  case True
  then show ?thesis
    by (auto simp add: render_def rerender_def useEffect_userId_def serve_def arrive_def)
next
  case False
  let ?a = "a\<lparr>hook := (hook a)\<lparr>userId := u\<rparr>\<rparr>"
  from False have "execs [Render u, Serve (length (pending a)), Arrive (length (pending a))] a =
      execs [CallFetch, Serve (length (pending ?a)), Arrive (length (pending ?a))] ?a"
    by (simp add: render_def)
  also have "\<dots> = ?a\<lparr>hook := fetchBankDetails (hook ?a)\<rparr>" by (rule fetch_as_events)
  finally show ?thesis using False by (simp add: rerender_def useEffect_userId_def)
qed

lemma mount_as_events:
  "execs [Serve 0, Arrive 0] (mount u r) = \<lparr>hook = useBankDetails u r, pending = []\<rparr>"
proof (cases "u = []")
  case True
  then show ?thesis
    by (simp add: mount_def useBankDetails_def useEffect_userId_def serve_def arrive_def
        initial_def)
next
  case False
  let ?a = "\<lparr>hook = initial u r, pending = []\<rparr>"
  have u: "userId (initial u r) = u" by (simp add: initial_def)
  from False have "execs [Serve 0, Arrive 0] (mount u r) =
      execs [CallFetch, Serve (length (pending ?a)), Arrive (length (pending ?a))] ?a"
    by (simp add: mount_def)
  also have "\<dots> = ?a\<lparr>hook := fetchBankDetails (hook ?a)\<rparr>" by (rule fetch_as_events)
  finally show ?thesis using False u by (simp add: useBankDetails_def useEffect_userId_def)
qed

lemma fetch_busy_commute:
  "fetchBankDetails (w\<lparr>isProcessing := b\<rparr>) = (fetchBankDetails w)\<lparr>isProcessing := b\<rparr>"
proof (cases "userId w = []")
  case True
  then show ?thesis by (simp add: fetchBankDetails_def)
next
  case False
  obtain resp r where s: "select_maybeSingle (userId w) (remote w) = (resp, r)"
    by (cases "select_maybeSingle (userId w) (remote w)")
  with False show ?thesis
    by (simp add: fetchBankDetails_def fetch_resolved_def toast_def
        split: response.splits option.splits)
qed

lemma save_as_events:
  "execs [CallSave fd, Serve (length (pending a)), Arrive (length (pending a)),
      Serve (length (pending a)), Arrive (length (pending a)),
      Serve (length (pending a)), Arrive (length (pending a))] a =
     a\<lparr>hook := snd (saveBankDetails fd (hook a))\<rparr>"
proof (cases "userId (hook a) = []")
  case True
  then show ?thesis
    by (simp add: call_save_def serve_def arrive_def saveBankDetails_def)
next
  case False
  let ?w = "hook a" and ?k = "length (pending a)"
  let ?p = "bankPayload_of fd (useForBoth ?w)"
  obtain resp1 r1 where l: "select_id_maybeSingle (userId ?w) (remote ?w) = (resp1, r1)"
    by (cases "select_id_maybeSingle (userId ?w) (remote ?w)")
  let ?a1 = "a\<lparr>hook := ?w\<lparr>isProcessing := True, remote := r1\<rparr>,
      pending := pending a @ [Looked fd (userId ?w) (useForBoth ?w) resp1]\<rparr>"
  have one: "execs [CallSave fd, Serve ?k] a = ?a1"
    using False l by (simp add: call_save_def serve_def)
  have stop: "\<And>b. length (pending b) = ?k \<Longrightarrow>
      execs [Serve ?k, Arrive ?k, Serve ?k, Arrive ?k] b = b"
    by (simp add: serve_def arrive_def)
  let ?fail = "a\<lparr>hook := (toast save_error_toast (?w\<lparr>isProcessing := True, remote := r1\<rparr>))
      \<lparr>isProcessing := False\<rparr>\<rparr>"
  show ?thesis
  proof (cases "case resp1 of Rejected \<Rightarrow> True | Resolved d e \<Rightarrow> not_no_rows e")
    case True
    then have "arrive ?k ?a1 = ?fail"
      by (simp add: arrive_def caught_def split: response.splits)
    with one have "execs [CallSave fd, Serve ?k, Arrive ?k] a = ?fail" by simp
    moreover have "execs [Serve ?k, Arrive ?k, Serve ?k, Arrive ?k] ?fail = ?fail"
      by (rule stop) simp
    ultimately have "execs [CallSave fd, Serve ?k, Arrive ?k, Serve ?k, Arrive ?k,
        Serve ?k, Arrive ?k] a = ?fail"
      by simp
    moreover from True False l have "snd (saveBankDetails fd ?w) = hook ?fail"
      by (simp add: saveBankDetails_def save_try_def split: response.splits)
    ultimately show ?thesis by simp
  next
    case False
    then obtain existingData checkError where r: "resp1 = Resolved existingData checkError"
      and ok: "\<not> not_no_rows checkError"
      by (cases resp1) simp_all
    define wr where "wr = (case existingData of
        Some i \<Rightarrow> if i \<noteq> [] then update_eq ?p i (userId ?w) r1
                  else insert_row (userId ?w) ?p r1
      | None \<Rightarrow> insert_row (userId ?w) ?p r1)"
    obtain resp2 r2 where w2: "wr = (resp2, r2)" by (cases wr)
    let ?a2 = "a\<lparr>hook := ?w\<lparr>isProcessing := True, remote := r2\<rparr>,
        pending := pending a @ [Written (userId ?w) resp2]\<rparr>"
    have two: "execs [Serve ?k] (arrive ?k ?a1) = ?a2"
      using r ok w2
      by (cases existingData)
        (simp_all add: arrive_def serve_def wr_def Let_def split: if_splits)
    let ?fail2 = "a\<lparr>hook := (toast save_error_toast (?w\<lparr>isProcessing := True, remote := r2\<rparr>))
        \<lparr>isProcessing := False\<rparr>\<rparr>"
    have seq: "save_try fd (?w\<lparr>isProcessing := True\<rparr>) =
        (case resp2 of
           Rejected \<Rightarrow> (Inl Thrown, ?w\<lparr>isProcessing := True, remote := r2\<rparr>)
         | Resolved x updateError \<Rightarrow>
             (case updateError of
                Some e \<Rightarrow> (Inl Thrown, ?w\<lparr>isProcessing := True, remote := r2\<rparr>)
              | None \<Rightarrow>
                  (Inr True,
                   fetchBankDetails
                     (toast saved_toast (?w\<lparr>isProcessing := True, remote := r2\<rparr>)))))"
      using l r ok w2
      by (simp add: save_try_def Let_def wr_def cong: option.case_cong if_cong)
    show ?thesis
    proof (cases "case resp2 of Rejected \<Rightarrow> True | Resolved x e \<Rightarrow> e \<noteq> None")
      case True
      then have "arrive ?k ?a2 = ?fail2"
        by (auto simp add: arrive_def caught_def split: response.splits option.splits)
      with one two have "execs [CallSave fd, Serve ?k, Arrive ?k, Serve ?k, Arrive ?k] a = ?fail2"
        by simp
      moreover have "execs [Serve ?k, Arrive ?k] ?fail2 = ?fail2"
        by (simp add: serve_def arrive_def)
      ultimately have "execs [CallSave fd, Serve ?k, Arrive ?k, Serve ?k, Arrive ?k,
          Serve ?k, Arrive ?k] a = ?fail2"
        by simp
      moreover from True \<open>userId ?w \<noteq> []\<close> seq have "snd (saveBankDetails fd ?w) = hook ?fail2"
        by (auto simp add: saveBankDetails_def split: response.splits option.splits)
      ultimately show ?thesis by simp
    next
      case False
      then obtain x where r2: "resp2 = Resolved x None" by (cases resp2) auto
      let ?w3 = "(toast saved_toast (?w\<lparr>isProcessing := True, remote := r2\<rparr>))
          \<lparr>isProcessing := False\<rparr>"
      let ?a3 = "a\<lparr>hook := ?w3\<rparr>"
      have u3: "userId ?w3 = userId ?w" by (simp add: toast_def)
      from r2 \<open>userId ?w \<noteq> []\<close> have "arrive ?k ?a2 = call_fetch ?a3"
        by (simp add: arrive_def call_fetch_def toast_def)
      with one two have "execs [CallSave fd, Serve ?k, Arrive ?k, Serve ?k, Arrive ?k,
          Serve ?k, Arrive ?k] a =
          execs [CallFetch, Serve (length (pending ?a3)), Arrive (length (pending ?a3))] ?a3"
        by simp
      also have "\<dots> = ?a3\<lparr>hook := fetchBankDetails (hook ?a3)\<rparr>" by (rule fetch_as_events)
      finally have "execs [CallSave fd, Serve ?k, Arrive ?k, Serve ?k, Arrive ?k,
          Serve ?k, Arrive ?k] a = a\<lparr>hook := fetchBankDetails ?w3\<rparr>"
        by simp
      moreover from r2 \<open>userId ?w \<noteq> []\<close> seq
      have "snd (saveBankDetails fd ?w) = fetchBankDetails ?w3"
        by (simp add: saveBankDetails_def fetch_busy_commute)
      ultimately show ?thesis by simp
    qed
  qed
qed

end
